theory Spec2Isabelle
  imports Complex_Main "HOL-Library.Char_ord" "HOL-Library.List_Lexorder" "HOL-Library.Sublist"
begin

section \<open>Data model\<close>

text \<open>
  The parser of \<^verbatim>\<open>src/src/parser.py\<close> works on decoded JSON objects (Python dicts) and reads
  a fixed set of keys from them with \<^verbatim>\<open>'k' in d\<close> and \<^verbatim>\<open>d.get('k', default)\<close>. A JSON
  object is modelled as a record with one optional field per key the program reads:
  \<open>None\<close> is an absent key. The values have the types of the export format:
  \<^verbatim>\<open>sender_name\<close> and \<^verbatim>\<open>content\<close> are strings, \<^verbatim>\<open>timestamp_ms\<close> is an integer (a Python int,
  unbounded) that counts the milliseconds of an instant the platform can render as a
  date, \<^verbatim>\<open>share\<close> is an object that may carry a string \<^verbatim>\<open>share_text\<close>, \<^verbatim>\<open>participants\<close> is
  the list of the names. Values of other types make Python raise at various places and
  are outside the model.

  A Python string is a \<open>string\<close>; a character stands for a code point below 256.
\<close>

record share_info =
  share_text :: "string option"

record raw_message =
  sender_name :: "string option"
  content :: "string option"
  timestamp_ms :: "int option"
  share :: "share_info option"

text \<open>
  The decoded content of an export file: an object that may expose a \<^verbatim>\<open>messages\<close> array
  and a \<^verbatim>\<open>participants\<close> array. It extends \<open>raw_message\<close>, because the loader may also
  meet an object that is itself one message (it then has the message keys and no
  \<^verbatim>\<open>messages\<close> key). \<open>other_keys\<close> lists the keys of the object that the program never
  reads (\<^verbatim>\<open>title\<close>, \<^verbatim>\<open>thread_path\<close>, ...): they decide whether the object is empty, which
  is what Python's \<^verbatim>\<open>not self.messages_data\<close> tests.
\<close>

record decoded = raw_message +
  messages :: "raw_message list option"
  participants :: "string list option"
  other_keys :: "string list"

text \<open>The processed message built at lines 200-207 of \<^verbatim>\<open>src/src/parser.py\<close>.\<close>

record message =
  sender :: string
  content :: string
  timestamp_ms :: int
  timestamp :: "string option"

type_synonym conversation = "message list"

text \<open>
  The \<^verbatim>\<open>MessageParser\<close> object. \<^verbatim>\<open>user_mapping\<close> is a dict from role to Instagram user
  name; \<^verbatim>\<open>_replace_username\<close> scans its items in insertion order, so it is an association
  list. \<^verbatim>\<open>messages_data\<close> is \<open>None\<close> until a file is loaded.
\<close>

record parser =
  user_mapping :: "(string \<times> string) list"
  messages_data :: "decoded option"
  conversations :: "conversation list"

definition init :: "(string \<times> string) list \<Rightarrow> parser" where
  "init um = \<lparr>user_mapping = um, messages_data = None, conversations = []\<rparr>"

section \<open>String operations of the Python library\<close>

text \<open>
  \<^verbatim>\<open>str.strip()\<close> removes leading and trailing white space; below code point 256 the
  white space characters of Python are 9-13, 28-32, 133 and 160.
\<close>

definition is_space :: "char \<Rightarrow> bool" where
  "is_space c = (of_char c \<in> {9, 10, 11, 12, 13, 28, 29, 30, 31, 32, 133, 160 :: nat})"

definition str_strip :: "string \<Rightarrow> string" where
  "str_strip s = rev (dropWhile is_space (rev (dropWhile is_space s)))"

text \<open>
  \<^verbatim>\<open>str.lower()\<close>: below code point 256 the upper-case letters are 65-90 and 192-222 except
  215, and each has its lower-case letter 32 places further.
\<close>

definition lower_char :: "char \<Rightarrow> char" where
  "lower_char c =
     (let n = (of_char c :: nat)
      in if (65 \<le> n \<and> n \<le> 90) \<or> (192 \<le> n \<and> n \<le> 222 \<and> n \<noteq> 215)
         then char_of (n + 32) else c)"

definition str_lower :: "string \<Rightarrow> string" where
  "str_lower s = map lower_char s"

section \<open>The segmenter of \<^verbatim>\<open>src/src/parser.py\<close>\<close>

text \<open>The read \<^verbatim>\<open>message.get('timestamp_ms', 0)\<close> of a raw record.\<close>

definition get_timestamp_ms :: "'a raw_message_scheme \<Rightarrow> int" where
  "get_timestamp_ms message =
     (case raw_message.timestamp_ms message of None \<Rightarrow> 0 | Some t \<Rightarrow> t)"

text \<open>The read \<^verbatim>\<open>self.messages_data.get('messages', [])\<close> of the loaded object.\<close>

definition get_messages :: "decoded \<Rightarrow> raw_message list" where
  "get_messages data = (case messages data of None \<Rightarrow> [] | Some ms \<Rightarrow> ms)"

text \<open>The truth test \<^verbatim>\<open>not self.messages_data\<close> on a loaded object: the empty dict is false.\<close>

definition empty_object :: "decoded \<Rightarrow> bool" where
  "empty_object data =
     (sender_name data = None \<and> raw_message.content data = None
      \<and> raw_message.timestamp_ms data = None \<and> share data = None
      \<and> messages data = None \<and> participants data = None \<and> other_keys data = [])"

text \<open>\<^verbatim>\<open>_replace_username\<close> (lines 97-110): the first role whose user name matches wins.\<close>

fun replace_username :: "(string \<times> string) list \<Rightarrow> string \<Rightarrow> string" where
  "replace_username [] username = username"
| "replace_username ((role, instagram_user) # rest) username =
     (if str_lower instagram_user = str_lower username then role
      else replace_username rest username)"

text \<open>
  \<^verbatim>\<open>_should_group_messages\<close> (lines 112-143). \<^verbatim>\<open>len(set(...))\<close> is the number of distinct
  senders. The quotient \<^verbatim>\<open>abs(ts2 - ts1) / 1000.0\<close> is a float in Python; the model takes it
  exactly, as a rational. The comparison with the threshold has the same result in both
  as long as the difference is below \<open>2^53\<close> and the threshold below \<open>2^43\<close>: the float of
  the difference is then exact and the rounded quotient stays on its side of the
  threshold.
\<close>

definition should_group_messages ::
  "message \<Rightarrow> message \<Rightarrow> int \<Rightarrow> conversation \<Rightarrow> bool" where
  "should_group_messages msg1 msg2 time_threshold_seconds conversation =
     (let ts1 = message.timestamp_ms msg1;
          ts2 = message.timestamp_ms msg2;
          time_diff = (of_int \<bar>ts2 - ts1\<bar> :: rat) / 1000;
          has_interchange =
            (if conversation \<noteq> [] then card (set (map sender conversation)) > 1 else False);
          threshold = (if has_interchange then time_threshold_seconds else 60)
      in time_diff \<le> of_int threshold)"

text \<open>\<^verbatim>\<open>_is_valid_conversation\<close> (lines 243-260).\<close>

definition is_valid_conversation :: "conversation \<Rightarrow> bool \<Rightarrow> bool" where
  "is_valid_conversation conversation interchange_only =
     (if \<not> interchange_only then True
      else card (set (map sender conversation)) \<ge> 2)"

text \<open>
  The processed message of one loop iteration (lines 185-207). \<open>isoformat\<close> stands for
  \<^verbatim>\<open>datetime.fromtimestamp(ms / 1000.0).isoformat()\<close>, which renders the instant in the
  local time zone of the machine; it is a parameter of the model, total on the instants
  of the data model. Python's truth test of
  \<^verbatim>\<open>message.get('timestamp_ms')\<close> fails for an absent key and for 0; that of
  \<^verbatim>\<open>share_text\<close> fails for \<^verbatim>\<open>None\<close> and for the empty string.
\<close>

definition processed_msg ::
  "(int \<Rightarrow> string) \<Rightarrow> (string \<times> string) list \<Rightarrow> 'a raw_message_scheme \<Rightarrow> message" where
  "processed_msg isoformat um message =
     (let sender = replace_username um (case sender_name message of None \<Rightarrow> '''' | Some s \<Rightarrow> s);
          content_raw = (case raw_message.content message of None \<Rightarrow> '''' | Some c \<Rightarrow> c);
          share_text = (case share message of None \<Rightarrow> None | Some sh \<Rightarrow> share_text sh);
          content =
            (if str_lower (str_strip content_raw) = ''enviaste un archivo adjunto.''
             then (case share_text of
                     None \<Rightarrow> ''[image from '' @ sender @ '']''
                   | Some st \<Rightarrow>
                       if st \<noteq> '''' \<and> str_strip st \<noteq> ''''
                       then ''[image from '' @ sender @ '': '' @ str_strip st @ '']''
                       else ''[image from '' @ sender @ '']'')
             else content_raw);
          ts = get_timestamp_ms message
      in \<lparr>sender = sender,
          content = content,
          timestamp_ms = ts,
          timestamp = (if ts \<noteq> 0 then Some (isoformat ts) else None)\<rparr>)"

text \<open>
  The body of the loop of \<^verbatim>\<open>parse_conversations\<close> (lines 179-229), as a step on the pair
  of the closed conversations and the open one.
\<close>

definition loop_body ::
  "(int \<Rightarrow> string) \<Rightarrow> (string \<times> string) list \<Rightarrow> int \<Rightarrow> bool \<Rightarrow> int \<Rightarrow>
   conversation list \<times> conversation \<Rightarrow> 'a raw_message_scheme \<Rightarrow> conversation list \<times> conversation" where
  "loop_body isoformat um time_threshold_seconds interchange_only max_messages st message =
     (case st of (convs, current_conversation) \<Rightarrow>
        if raw_message.content message = None then (convs, current_conversation)
        else
          let processed = processed_msg isoformat um message in
          if current_conversation = [] then (convs, current_conversation @ [processed])
          else if int (length current_conversation) \<ge> max_messages then
            ((if is_valid_conversation current_conversation interchange_only
              then convs @ [current_conversation] else convs),
             [processed])
          else
            let last_msg = last current_conversation in
            if should_group_messages last_msg processed time_threshold_seconds current_conversation
            then (convs, current_conversation @ [processed])
            else
              ((if current_conversation \<noteq> []
                then (if is_valid_conversation current_conversation interchange_only
                      then convs @ [current_conversation] else convs)
                else convs),
               [processed]))"

text \<open>
  \<^verbatim>\<open>_group_consecutive_messages\<close> (lines 262-297). The loop carries the finished groups and
  the group being built (\<open>None\<close> before the first message).
\<close>

fun group_loop :: "conversation \<Rightarrow> message option \<Rightarrow> conversation \<Rightarrow> conversation \<times> message option" where
  "group_loop grouped current_group [] = (grouped, current_group)"
| "group_loop grouped None (msg # rest) = group_loop grouped (Some msg) rest"
| "group_loop grouped (Some g) (msg # rest) =
     (if sender g = sender msg
      then group_loop grouped
             (Some (g\<lparr>content := message.content g @ '', '' @ message.content msg,
                      timestamp_ms := message.timestamp_ms msg,
                      timestamp := timestamp msg\<rparr>)) rest
      else group_loop (grouped @ [g]) (Some msg) rest)"

definition group_consecutive_messages :: "conversation \<Rightarrow> conversation" where
  "group_consecutive_messages conversation =
     (if conversation = [] then conversation
      else case group_loop [] None conversation of
             (grouped, None) \<Rightarrow> grouped
           | (grouped, Some g) \<Rightarrow> grouped @ [g])"

text \<open>
  \<^verbatim>\<open>parse_conversations\<close> (lines 145-241). It returns the list of conversations and stores
  it in the parser; the early returns leave the parser as it is. \<^verbatim>\<open>sorted\<close> is stable, as
  \<open>sort_key\<close> is.
\<close>

definition parse_conversations ::
  "(int \<Rightarrow> string) \<Rightarrow> parser \<Rightarrow> int \<Rightarrow> bool \<Rightarrow> int \<Rightarrow> bool \<Rightarrow> conversation list \<times> parser" where
  "parse_conversations isoformat self time_threshold_seconds interchange_only max_messages group_consecutive =
     (case messages_data self of
        None \<Rightarrow> ([], self)
      | Some data \<Rightarrow>
          if empty_object data then ([], self)
          else
          let msgs = get_messages data;
              sorted_messages = sort_key (\<lambda>x. get_timestamp_ms x) msgs
          in if sorted_messages = [] then ([], self)
             else
               let (convs, current_conversation) =
                     foldl (loop_body isoformat (user_mapping self) time_threshold_seconds
                              interchange_only max_messages) ([], []) sorted_messages;
                   convs =
                     (if current_conversation \<noteq> []
                      then (if is_valid_conversation current_conversation interchange_only
                            then convs @ [current_conversation] else convs)
                      else convs);
                   convs =
                     (if group_consecutive then map group_consecutive_messages convs
                      else convs)
               in (convs, self\<lparr>conversations := convs\<rparr>))"

text \<open>
  \<^verbatim>\<open>get_statistics\<close> (lines 308-329). The empty dict it returns when nothing is loaded is
  \<open>None\<close>.
\<close>

record statistics =
  total_messages :: nat
  messages_with_content :: nat
  total_conversations :: nat
  stat_participants :: "string list"

definition get_statistics :: "parser \<Rightarrow> statistics option" where
  "get_statistics self =
     (case messages_data self of
        None \<Rightarrow> None
      | Some data \<Rightarrow>
          if empty_object data then None
          else
          let msgs = get_messages data
          in Some \<lparr>total_messages = length msgs,
                   messages_with_content =
                     length (filter (\<lambda>msg. raw_message.content msg \<noteq> None) msgs),
                   total_conversations = length (conversations self),
                   stat_participants =
                     (case participants data of None \<Rightarrow> [] | Some ps \<Rightarrow> ps)\<rparr>)"

section \<open>Loading: \<^verbatim>\<open>load_messages\<close> and \<^verbatim>\<open>_fix_encoding\<close>\<close>

text \<open>
  \<^verbatim>\<open>_fix_encoding\<close> (lines 74-95) walks the decoded value and rewrites every string value
  (never a key) with \<^verbatim>\<open>obj.encode('latin1').decode('utf-8')\<close>, keeping the string when a
  codec refuses it. The rewriting of one string belongs to the codecs of the platform and
  is the parameter \<open>repair\<close>; the walk is the code's.
\<close>

definition fix_share :: "(string \<Rightarrow> string) \<Rightarrow> share_info \<Rightarrow> share_info" where
  "fix_share repair sh = sh\<lparr>share_text := map_option repair (share_text sh)\<rparr>"

definition fix_message :: "(string \<Rightarrow> string) \<Rightarrow> 'a raw_message_scheme \<Rightarrow> 'a raw_message_scheme" where
  "fix_message repair m =
     m\<lparr>sender_name := map_option repair (sender_name m),
       raw_message.content := map_option repair (raw_message.content m),
       share := map_option (fix_share repair) (share m)\<rparr>"

definition fix_encoding :: "(string \<Rightarrow> string) \<Rightarrow> decoded \<Rightarrow> decoded" where
  "fix_encoding repair d =
     (fix_message repair d)
       \<lparr>messages := map_option (map (fix_message repair)) (messages d),
        participants := map_option (map repair) (participants d)\<rparr>"

text \<open>
  What a path holds when \<^verbatim>\<open>load_messages\<close> (lines 31-72) reads it: nothing, one file, or a
  directory of named files. A file holds a JSON object, a JSON array of message
  objects, or text that \<^verbatim>\<open>json.load\<close> refuses (\<open>None\<close>). A single file that holds an array
  is left out: \<^verbatim>\<open>parse_conversations\<close> calls \<^verbatim>\<open>.get\<close> on what was loaded, which a list
  does not have.
\<close>

datatype json_value = Object decoded | Array "raw_message list"

datatype source =
    Missing
  | File "decoded option"
  | Directory "(string \<times> json_value option) list"

datatype load_error = FileNotFoundError | JSONDecodeError

text \<open>The messages one file of a directory contributes (lines 55-61).\<close>

definition file_messages :: "(string \<Rightarrow> string) \<Rightarrow> json_value \<Rightarrow> raw_message list" where
  "file_messages repair v =
     (case v of
        Object d \<Rightarrow>
          (let file_data = fix_encoding repair d
           in case messages file_data of
                Some ms \<Rightarrow> ms
              | None \<Rightarrow> [raw_message.truncate file_data])
      | Array ms \<Rightarrow> map (fix_message repair) ms)"

definition load_messages :: "(string \<Rightarrow> string) \<Rightarrow> parser \<Rightarrow> source \<Rightarrow> load_error + parser" where
  "load_messages repair self src =
     (case src of
        Directory entries \<Rightarrow>
          (let json_files = filter (\<lambda>(f, _). suffix ''.json'' f) entries
           in if json_files = [] then Inl FileNotFoundError
              else
                let all_messages =
                      concat (map (\<lambda>(f, r). case r of None \<Rightarrow> [] | Some v \<Rightarrow> file_messages repair v)
                                  (sort_key fst json_files))
                in Inr (self\<lparr>messages_data :=
                          Some \<lparr>sender_name = None, raw_message.content = None,
                                raw_message.timestamp_ms = None, share = None,
                                messages = Some all_messages, participants = None,
                                other_keys = []\<rparr>\<rparr>))
      | File None \<Rightarrow> Inl JSONDecodeError
      | File (Some d) \<Rightarrow> Inr (self\<lparr>messages_data := Some (fix_encoding repair d)\<rparr>)
      | Missing \<Rightarrow> Inl FileNotFoundError)"

section \<open>The first parser, \<^verbatim>\<open>src/parser.py\<close>\<close>

text \<open>
  \<^verbatim>\<open>test.py\<close> imports this module. Its \<^verbatim>\<open>_should_group_messages\<close> (lines 55-75) has one
  threshold, and its \<^verbatim>\<open>parse_conversations\<close> (lines 77-138) has neither the cap, nor the
  filter, nor the attachment rule.
\<close>

definition should_group_messages_legacy :: "message \<Rightarrow> message \<Rightarrow> int \<Rightarrow> bool" where
  "should_group_messages_legacy msg1 msg2 time_threshold_seconds =
     (let ts1 = message.timestamp_ms msg1;
          ts2 = message.timestamp_ms msg2;
          time_diff = (of_int \<bar>ts2 - ts1\<bar> :: rat) / 1000
      in time_diff \<le> of_int time_threshold_seconds)"

definition processed_msg_legacy ::
  "(int \<Rightarrow> string) \<Rightarrow> (string \<times> string) list \<Rightarrow> 'a raw_message_scheme \<Rightarrow> message" where
  "processed_msg_legacy isoformat um message =
     \<lparr>sender = replace_username um (case sender_name message of None \<Rightarrow> '''' | Some s \<Rightarrow> s),
      content = (case raw_message.content message of None \<Rightarrow> '''' | Some c \<Rightarrow> c),
      timestamp_ms = get_timestamp_ms message,
      timestamp = (if get_timestamp_ms message \<noteq> 0
                   then Some (isoformat (get_timestamp_ms message)) else None)\<rparr>"

definition loop_body_legacy ::
  "(int \<Rightarrow> string) \<Rightarrow> (string \<times> string) list \<Rightarrow> int \<Rightarrow>
   conversation list \<times> conversation \<Rightarrow> 'a raw_message_scheme \<Rightarrow> conversation list \<times> conversation" where
  "loop_body_legacy isoformat um time_threshold_seconds st message =
     (case st of (convs, current_conversation) \<Rightarrow>
        if raw_message.content message = None then (convs, current_conversation)
        else
          let processed = processed_msg_legacy isoformat um message in
          if current_conversation = [] then (convs, current_conversation @ [processed])
          else
            let last_msg = last current_conversation in
            if should_group_messages_legacy last_msg processed time_threshold_seconds
            then (convs, current_conversation @ [processed])
            else
              ((if current_conversation \<noteq> [] then convs @ [current_conversation] else convs),
               [processed]))"

definition parse_conversations_legacy ::
  "(int \<Rightarrow> string) \<Rightarrow> parser \<Rightarrow> int \<Rightarrow> conversation list \<times> parser" where
  "parse_conversations_legacy isoformat self time_threshold_seconds =
     (case messages_data self of
        None \<Rightarrow> ([], self)
      | Some data \<Rightarrow>
          if empty_object data then ([], self)
          else
          let msgs = get_messages data;
              sorted_messages = sort_key (\<lambda>x. get_timestamp_ms x) msgs
          in if sorted_messages = [] then ([], self)
             else
               let (convs, current_conversation) =
                     foldl (loop_body_legacy isoformat (user_mapping self) time_threshold_seconds)
                           ([], []) sorted_messages;
                   convs =
                     (if current_conversation \<noteq> [] then convs @ [current_conversation]
                      else convs)
               in (convs, self\<lparr>conversations := convs\<rparr>))"

section \<open>The merge of runs, as the specification words it\<close>

text \<open>
  The specification describes the post-pass of \<^verbatim>\<open>group_consecutive\<close> by its result: the
  conversation is cut into its maximal runs of adjacent messages of one sender, and each
  run becomes one message. These definitions follow that wording; they are compared with
  \<open>group_consecutive_messages\<close> below.
\<close>

fun join :: "string \<Rightarrow> string list \<Rightarrow> string" where
  "join sep [] = []"
| "join sep [x] = x"
| "join sep (x # y # ys) = x @ sep @ join sep (y # ys)"

definition merge_run :: "conversation \<Rightarrow> message" where
  "merge_run run =
     \<lparr>sender = sender (hd run),
      content = join '', '' (map message.content run),
      timestamp_ms = message.timestamp_ms (last run),
      timestamp = timestamp (last run)\<rparr>"

function runs :: "conversation \<Rightarrow> conversation list" where
  "runs [] = []"
| "runs (m # ms) =
     (m # takeWhile (\<lambda>x. sender x = sender m) ms) # runs (dropWhile (\<lambda>x. sender x = sender m) ms)"
  by pat_completeness auto
termination
  by (relation "measure length") (auto simp: length_dropWhile_le le_imp_less_Suc)

section \<open>Auxiliary definitions for the proofs\<close>

text \<open>One step of the merge loop, the value the loop returns, and the close after the loop.\<close>

definition absorb :: "message \<Rightarrow> message \<Rightarrow> message" where
  "absorb g msg = g\<lparr>content := message.content g @ '', '' @ message.content msg,
                     timestamp_ms := message.timestamp_ms msg,
                     timestamp := timestamp msg\<rparr>"

definition flush :: "conversation \<times> message option \<Rightarrow> conversation" where
  "flush st = (case st of (grouped, None) \<Rightarrow> grouped | (grouped, Some g) \<Rightarrow> grouped @ [g])"

definition close_last :: "bool \<Rightarrow> conversation list \<times> conversation \<Rightarrow> conversation list" where
  "close_last io st = (case st of (convs, cur) \<Rightarrow>
      if cur \<noteq> [] \<and> is_valid_conversation cur io then convs @ [cur] else convs)"

section \<open>Example inputs\<close>

text \<open>
  An export as \<^verbatim>\<open>test.py\<close> describes its own: two senders alternate at 0 s, 15 s, 20 s and
  90 s after an instant \<open>t0\<close>, and the mapping of \<^verbatim>\<open>test_conversation_grouping\<close> names
  their roles. The contents are free.
\<close>

definition raw :: "string \<Rightarrow> string \<Rightarrow> int \<Rightarrow> raw_message" where
  "raw s c t = \<lparr>sender_name = Some s, raw_message.content = Some c,
                raw_message.timestamp_ms = Some t, share = None\<rparr>"

definition export :: "raw_message list \<Rightarrow> decoded" where
  "export ms = \<lparr>sender_name = None, raw_message.content = None,
                 raw_message.timestamp_ms = None, share = None,
                 messages = Some ms, participants = None, other_keys = []\<rparr>"

definition test_mapping :: "(string \<times> string) list" where
  "test_mapping = [(''user'', ''User Name''), (''friend'', ''Other Person'')]"

definition test_messages :: "int \<Rightarrow> raw_message list" where
  "test_messages t0 =
     [raw ''User Name'' ''Hello'' t0,
      raw ''Other Person'' ''Hi'' (t0 + 15000),
      raw ''User Name'' ''How are you?'' (t0 + 20000),
      raw ''Other Person'' ''Fine'' (t0 + 90000)]"

definition test_parser :: "int \<Rightarrow> parser" where
  "test_parser t0 = (init test_mapping)\<lparr>messages_data := Some (export (test_messages t0))\<rparr>"

text \<open>
  A rendering of instants for the closed examples. The general statements hold for
  every rendering.
\<close>

definition render :: "int \<Rightarrow> string" where
  "render t = ''local time''"

text \<open>A processed message, as the loop builds it from a sender, a content and an instant.\<close>

definition msg :: "(int \<Rightarrow> string) \<Rightarrow> string \<Rightarrow> string \<Rightarrow> int \<Rightarrow> message" where
  "msg isoformat s c t =
     \<lparr>sender = s, content = c, timestamp_ms = t,
      timestamp = (if t \<noteq> 0 then Some (isoformat t) else None)\<rparr>"

text \<open>A file that holds one message object and no \<^verbatim>\<open>messages\<close> key.\<close>

definition single_message_file :: decoded where
  "single_message_file =
     \<lparr>sender_name = Some ''A'', raw_message.content = Some ''hi'',
      raw_message.timestamp_ms = Some 1000, share = None,
      messages = None, participants = None, other_keys = []\<rparr>"

text \<open>An attachment placeholder whose \<^verbatim>\<open>share_text\<close> is one blank.\<close>

definition blank_share_message :: raw_message where
  "blank_share_message =
     \<lparr>sender_name = Some ''A'', raw_message.content = Some ''Enviaste un archivo adjunto.'',
      raw_message.timestamp_ms = Some 1000, share = Some \<lparr>share_text = Some '' ''\<rparr>\<rparr>"

section \<open>The loop of the segmenter: invariants\<close>

lemma loop_body_skip:
  "raw_message.content message = None \<Longrightarrow> loop_body isoformat um T io mx st message = st"
  by (simp add: loop_body_def split: prod.splits)

lemma loop_body_cases:
  assumes "raw_message.content message \<noteq> None"
  shows "loop_body isoformat um T io mx (convs, cur) message = (convs, cur @ [processed_msg isoformat um message])
       \<or> (cur \<noteq> [] \<and> loop_body isoformat um T io mx (convs, cur) message =
            ((if is_valid_conversation cur io then convs @ [cur] else convs), [processed_msg isoformat um message]))"
  using assms by (cases "cur = []") (auto simp: loop_body_def Let_def)

lemma loop_body_length:
  assumes "\<forall>c\<in>set convs. int (length c) \<le> max 1 mx" "int (length cur) \<le> max 1 mx"
    and "loop_body isoformat um T io mx (convs, cur) message = (convs', cur')"
  shows "(\<forall>c\<in>set convs'. int (length c) \<le> max 1 mx) \<and> int (length cur') \<le> max 1 mx"
  using assms by (auto simp: loop_body_def Let_def split: if_splits)

lemma foldl_loop_body_length:
  assumes "\<forall>c\<in>set convs. int (length c) \<le> max 1 mx" "int (length cur) \<le> max 1 mx"
    and "foldl (loop_body isoformat um T io mx) (convs, cur) ms = (convs', cur')"
  shows "(\<forall>c\<in>set convs'. int (length c) \<le> max 1 mx) \<and> int (length cur') \<le> max 1 mx"
  using assms
proof (induction ms arbitrary: convs cur)
  case Nil
  then show ?case by simp
next
  case (Cons m ms)
  obtain c1 u1 where s: "loop_body isoformat um T io mx (convs, cur) m = (c1, u1)"
    by (cases "loop_body isoformat um T io mx (convs, cur) m")
  from loop_body_length[OF Cons.prems(1,2) s] Cons.prems(3) s Cons.IH[of c1 u1]
  show ?case by simp
qed

lemma loop_body_valid:
  assumes "\<forall>c\<in>set convs. c \<noteq> [] \<and> is_valid_conversation c io"
    and "loop_body isoformat um T io mx (convs, cur) message = (convs', cur')"
  shows "\<forall>c\<in>set convs'. c \<noteq> [] \<and> is_valid_conversation c io"
  using assms by (auto simp: loop_body_def Let_def split: if_splits)

lemma foldl_loop_body_valid:
  assumes "\<forall>c\<in>set convs. c \<noteq> [] \<and> is_valid_conversation c io"
    and "foldl (loop_body isoformat um T io mx) (convs, cur) ms = (convs', cur')"
  shows "\<forall>c\<in>set convs'. c \<noteq> [] \<and> is_valid_conversation c io"
  using assms
proof (induction ms arbitrary: convs cur)
  case Nil
  then show ?case by simp
next
  case (Cons m ms)
  obtain c1 u1 where s: "loop_body isoformat um T io mx (convs, cur) m = (c1, u1)"
    by (cases "loop_body isoformat um T io mx (convs, cur) m")
  from loop_body_valid[OF Cons.prems(1) s] Cons.prems(2) s Cons.IH[of c1 u1]
  show ?case by simp
qed

lemma loop_body_subseq:
  assumes "loop_body isoformat um T io mx (convs, cur) message = (convs', cur')"
  shows "subseq (concat convs' @ cur')
           (concat convs @ cur @ map (processed_msg isoformat um)
              (filter (\<lambda>m. raw_message.content m \<noteq> None) [message]))"
proof (cases "raw_message.content message = None")
  case True
  then show ?thesis using assms by (simp add: loop_body_skip)
next
  case False
  have drop: "subseq (concat convs @ [p]) (concat convs @ cur @ [p])" for p :: message
    by (simp add: subseq_append' subseq_drop_many)
  from loop_body_cases[OF False, of isoformat um T io mx convs cur] assms False
  show ?thesis
    by (auto simp: drop split: if_splits)
qed

lemma loop_body_concat:
  assumes "loop_body isoformat um T False mx (convs, cur) message = (convs', cur')"
  shows "concat convs' @ cur' =
           concat convs @ cur @ map (processed_msg isoformat um)
              (filter (\<lambda>m. raw_message.content m \<noteq> None) [message])"
  using assms by (auto simp: loop_body_def Let_def is_valid_conversation_def split: if_splits)

lemma foldl_loop_body_subseq:
  assumes "foldl (loop_body isoformat um T io mx) (convs, cur) ms = (convs', cur')"
  shows "subseq (concat convs' @ cur')
           (concat convs @ cur @ map (processed_msg isoformat um)
              (filter (\<lambda>m. raw_message.content m \<noteq> None) ms))"
  using assms
proof (induction ms arbitrary: convs cur)
  case Nil
  then show ?case by simp
next
  case (Cons m ms)
  let ?P = "processed_msg isoformat um" and ?C = "\<lambda>m. raw_message.content m \<noteq> None"
  obtain c1 u1 where s: "loop_body isoformat um T io mx (convs, cur) m = (c1, u1)"
    by (cases "loop_body isoformat um T io mx (convs, cur) m")
  have 1: "subseq (concat convs' @ cur') ((concat c1 @ u1) @ map ?P (filter ?C ms))"
    using Cons.IH[of c1 u1] Cons.prems s by simp
  have 2: "subseq (concat c1 @ u1) (concat convs @ cur @ map ?P (filter ?C [m]))"
    by (rule loop_body_subseq[OF s])
  have "subseq ((concat c1 @ u1) @ map ?P (filter ?C ms))
          ((concat convs @ cur @ map ?P (filter ?C [m])) @ map ?P (filter ?C ms))"
    by (rule list_emb_append_mono[OF 2]) simp
  with 1 have "subseq (concat convs' @ cur')
          ((concat convs @ cur @ map ?P (filter ?C [m])) @ map ?P (filter ?C ms))"
    by (rule subseq_order.trans)
  then show ?case by (cases "raw_message.content m") simp_all
qed

lemma foldl_loop_body_concat:
  assumes "foldl (loop_body isoformat um T False mx) (convs, cur) ms = (convs', cur')"
  shows "concat convs' @ cur' =
           concat convs @ cur @ map (processed_msg isoformat um)
              (filter (\<lambda>m. raw_message.content m \<noteq> None) ms)"
  using assms
proof (induction ms arbitrary: convs cur)
  case Nil
  then show ?case by simp
next
  case (Cons m ms)
  obtain c1 u1 where s: "loop_body isoformat um T False mx (convs, cur) m = (c1, u1)"
    by (cases "loop_body isoformat um T False mx (convs, cur) m")
  from loop_body_concat[OF s] Cons.IH[of c1 u1] Cons.prems s
  show ?case by simp
qed

section \<open>The merge loop and the runs\<close>

lemma group_consecutive_messages_flush:
  "group_consecutive_messages c = flush (group_loop [] None c)"
  by (cases c) (simp_all add: group_consecutive_messages_def flush_def)

lemma sender_absorb [simp]: "sender (absorb g x) = sender g"
  by (simp add: absorb_def)

lemma sender_foldl_absorb [simp]: "sender (foldl absorb g xs) = sender g"
  by (induction xs arbitrary: g) simp_all

lemma group_loop_absorb:
  "sender g = sender a \<Longrightarrow>
   group_loop grouped (Some g) (a # rest) = group_loop grouped (Some (absorb g a)) rest"
  by (simp add: absorb_def)

lemma group_loop_same:
  "\<forall>x\<in>set xs. sender x = sender g \<Longrightarrow>
   group_loop grouped (Some g) (xs @ rest) = group_loop grouped (Some (foldl absorb g xs)) rest"
proof (induction xs arbitrary: g)
  case Nil
  show ?case by simp
next
  case (Cons a xs)
  have a: "sender g = sender a" using Cons.prems by simp
  have rest: "\<forall>x\<in>set xs. sender x = sender (absorb g a)" using Cons.prems by simp
  have "group_loop grouped (Some g) ((a # xs) @ rest) = group_loop grouped (Some (absorb g a)) (xs @ rest)"
    using group_loop_absorb[OF a] by simp
  also have "\<dots> = group_loop grouped (Some (foldl absorb (absorb g a) xs)) rest"
    by (rule Cons.IH[OF rest])
  finally show ?case by simp
qed

lemma join_Cons: "join sep (x # xs) = x @ concat (map (\<lambda>y. sep @ y) xs)"
  by (induction xs arbitrary: x) simp_all

lemma foldl_absorb:
  "foldl absorb g xs =
     \<lparr>sender = sender g,
      content = message.content g @ concat (map (\<lambda>x. '', '' @ message.content x) xs),
      timestamp_ms = message.timestamp_ms (last (g # xs)),
      timestamp = timestamp (last (g # xs))\<rparr>"
proof (induction xs arbitrary: g)
  case Nil
  then show ?case by simp
next
  case (Cons x xs)
  show ?case unfolding foldl_Cons Cons.IH[of "absorb g x"]
    by (cases xs) (simp_all add: absorb_def)
qed

lemma merge_run_Cons: "merge_run (m # xs) = foldl absorb m xs"
  by (simp add: merge_run_def foldl_absorb join_Cons comp_def map_concat del: join.simps last.simps)

lemma flush_Some: "flush (grouped, Some g) = grouped @ [g]"
  by (simp add: flush_def)

lemma group_loop_runs:
  "flush (group_loop grouped None c) = grouped @ map merge_run (runs c)"
proof (induction c arbitrary: grouped rule: runs.induct)
  case 1
  show ?case by (simp add: flush_def)
next
  case (2 m ms)
  define tw where "tw = takeWhile (\<lambda>x. sender x = sender m) ms"
  define dw where "dw = dropWhile (\<lambda>x. sender x = sender m) ms"
  define g where "g = foldl absorb m tw"
  have ms: "ms = tw @ dw" by (simp add: tw_def dw_def)
  have same: "\<forall>x\<in>set tw. sender x = sender m"
    by (auto simp: tw_def dest: set_takeWhileD)
  have runs: "runs (m # ms) = (m # tw) # runs dw"
    by (simp add: tw_def dw_def)
  have "group_loop grouped None (m # ms) = group_loop grouped (Some m) (tw @ dw)"
    by (simp add: ms)
  also have "\<dots> = group_loop grouped (Some g) dw"
    unfolding g_def by (rule group_loop_same[OF same])
  finally have step: "group_loop grouped None (m # ms) = group_loop grouped (Some g) dw" .
  have mg: "merge_run (m # tw) = g" by (simp only: merge_run_Cons g_def)
  show ?case
  proof (cases dw)
    case Nil
    have "flush (group_loop grouped None (m # ms)) = grouped @ [g]"
      unfolding step Nil by (simp add: flush_Some)
    then show ?thesis by (simp add: runs mg Nil del: runs.simps(2))
  next
    case (Cons d ds)
    have "dw \<noteq> []" by (simp add: Cons)
    then have "\<not> sender (hd dw) = sender m"
      unfolding dw_def by (rule hd_dropWhile)
    then have neq: "sender g \<noteq> sender d" by (simp add: Cons g_def)
    have "group_loop grouped (Some g) dw = group_loop (grouped @ [g]) None dw"
      using neq by (simp add: Cons)
    moreover have "flush (group_loop (grouped @ [g]) None dw) = (grouped @ [g]) @ map merge_run (runs dw)"
      using "2.IH"[of "grouped @ [g]"] by (simp only: dw_def)
    ultimately have "flush (group_loop grouped None (m # ms)) = (grouped @ [g]) @ map merge_run (runs dw)"
      by (simp only: step)
    then show ?thesis by (simp add: runs mg del: runs.simps(2))
  qed
qed

lemma group_consecutive_messages_runs:
  "group_consecutive_messages c = map merge_run (runs c)"
  by (simp add: group_consecutive_messages_flush group_loop_runs)

lemma concat_runs: "concat (runs c) = c"
  by (induction c rule: runs.induct) simp_all

lemma runs_nonempty: "r \<in> set (runs c) \<Longrightarrow> r \<noteq> []"
  by (induction c rule: runs.induct) auto

lemma runs_same_sender: "r \<in> set (runs c) \<Longrightarrow> x \<in> set r \<Longrightarrow> sender x = sender (hd r)"
  by (induction c rule: runs.induct) (auto dest: set_takeWhileD)

lemma hd_runs: "c \<noteq> [] \<Longrightarrow> hd (hd (runs c)) = hd c"
  by (cases c) simp_all

lemma runs_eq_Nil [simp]: "runs c = [] \<longleftrightarrow> c = []"
  by (cases c) simp_all

lemma runs_maximal: "distinct_adj (map (\<lambda>r. sender (hd r)) (runs c))"
proof (induction c rule: runs.induct)
  case 1
  show ?case by simp
next
  case (2 m ms)
  define dw where "dw = dropWhile (\<lambda>x. sender x = sender m) ms"
  have runs: "runs (m # ms) = (m # takeWhile (\<lambda>x. sender x = sender m) ms) # runs dw"
    by (simp add: dw_def)
  have IH: "distinct_adj (map (\<lambda>r. sender (hd r)) (runs dw))"
    using 2 by (simp only: dw_def)
  show ?case
  proof (cases "dw = []")
    case True
    show ?thesis unfolding runs True by simp
  next
    case False
    then have "\<not> sender (hd dw) = sender m"
      unfolding dw_def by (rule hd_dropWhile)
    moreover have "hd (map (\<lambda>r. sender (hd r)) (runs dw)) = sender (hd dw)"
      using False by (simp add: hd_map hd_runs)
    ultimately show ?thesis using IH unfolding runs
      by (simp add: distinct_adj_Cons)
  qed
qed

lemma set_sender_runs: "set (map (\<lambda>r. sender (hd r)) (runs c)) = set (map sender c)"
proof -
  have "set (map sender c) = set (map sender (concat (runs c)))"
    by (simp add: concat_runs)
  also have "\<dots> = set (map (\<lambda>r. sender (hd r)) (runs c))"
  proof (intro set_eqI iffI)
    fix s assume "s \<in> set (map sender (concat (runs c)))"
    then obtain r x where "r \<in> set (runs c)" "x \<in> set r" "s = sender x" by auto
    then show "s \<in> set (map (\<lambda>r. sender (hd r)) (runs c))"
      using runs_same_sender by force
  next
    fix s assume "s \<in> set (map (\<lambda>r. sender (hd r)) (runs c))"
    then obtain r where r: "r \<in> set (runs c)" "s = sender (hd r)" by auto
    then have "hd r \<in> set r" using runs_nonempty by auto
    then show "s \<in> set (map sender (concat (runs c)))" using r by auto
  qed
  finally show ?thesis by simp
qed

lemma sender_merge_run [simp]: "sender (merge_run r) = sender (hd r)"
  by (simp add: merge_run_def)

lemma ts_merge_run [simp]: "message.timestamp_ms (merge_run r) = message.timestamp_ms (last r)"
  by (simp add: merge_run_def)

lemma group_senders: "set (map sender (group_consecutive_messages c)) = set (map sender c)"
  using set_sender_runs[of c] by (simp add: group_consecutive_messages_runs comp_def)

lemma group_distinct_adj: "distinct_adj (map sender (group_consecutive_messages c))"
  using runs_maximal[of c] by (simp add: group_consecutive_messages_runs comp_def)

lemma length_runs: "length (runs c) \<le> length c"
proof (induction c rule: runs.induct)
  case 1
  show ?case by simp
next
  case (2 m ms)
  have "length (dropWhile (\<lambda>x. sender x = sender m) ms) \<le> length ms"
    by (rule length_dropWhile_le)
  with 2 show ?case by simp
qed

lemma length_group: "length (group_consecutive_messages c) \<le> length c"
  by (simp add: group_consecutive_messages_runs length_runs)

lemma group_nonempty: "c \<noteq> [] \<Longrightarrow> group_consecutive_messages c \<noteq> []"
  by (simp add: group_consecutive_messages_runs)

lemma subseq_last_concat:
  "\<forall>r\<in>set rs. r \<noteq> [] \<Longrightarrow> subseq (map (\<lambda>r. f (last r)) rs) (map f (concat rs))"
proof (induction rs)
  case Nil
  show ?case by simp
next
  case (Cons r rs)
  then have "r \<noteq> []" by simp
  then have "map f r = map f (butlast r) @ [f (last r)]"
    by (metis append_butlast_last_id list.simps(8,9) map_append)
  then have "suffix [f (last r)] (map f r)"
    by (simp add: suffix_def)
  then have "subseq [f (last r)] (map f r)" by (rule suffix_imp_subseq)
  moreover have "subseq (map (\<lambda>r. f (last r)) rs) (map f (concat rs))"
    using Cons by simp
  ultimately have "subseq ([f (last r)] @ map (\<lambda>r. f (last r)) rs) (map f r @ map f (concat rs))"
    by (rule list_emb_append_mono)
  then show ?case by simp
qed

lemma group_ts_subseq:
  "subseq (map message.timestamp_ms (group_consecutive_messages c)) (map message.timestamp_ms c)"
  using subseq_last_concat[of "runs c" message.timestamp_ms]
  by (simp add: group_consecutive_messages_runs comp_def concat_runs runs_nonempty)

lemma subseq_sorted: "subseq xs ys \<Longrightarrow> sorted ys \<Longrightarrow> sorted (xs :: int list)"
  by (metis sorted_nths subseq_conv_nths)

section \<open>The result of \<^verbatim>\<open>parse_conversations\<close>\<close>

lemma empty_object_messages: "empty_object data \<Longrightarrow> get_messages data = []"
  by (simp add: empty_object_def get_messages_def)

lemma empty_object_export [simp]: "\<not> empty_object (export ms)"
  by (simp add: empty_object_def export_def)

lemma parse_conversations_no_messages:
  assumes "messages_data self = Some data"
    and "sort_key (\<lambda>x. get_timestamp_ms x) (get_messages data) = []"
  shows "fst (parse_conversations isoformat self T io mx gc) = []"
  using assms by (simp add: parse_conversations_def)

lemma parse_conversations_loaded:
  assumes "messages_data self = Some data"
    and "sort_key (\<lambda>x. get_timestamp_ms x) (get_messages data) = sm" and "sm \<noteq> []"
  shows "fst (parse_conversations isoformat self T io mx gc) =
         (if gc then map group_consecutive_messages else (\<lambda>x. x))
           (close_last io (foldl (loop_body isoformat (user_mapping self) T io mx) ([], []) sm))"
proof -
  have "\<not> empty_object data"
    using assms(2,3) empty_object_messages[of data] by auto
  then show ?thesis
    using assms
    by (simp add: parse_conversations_def close_last_def Let_def split: prod.splits)
qed

lemma parse_conversations_cases:
  obtains (early) "fst (parse_conversations isoformat self T io mx gc) = []"
  | (run) data where "messages_data self = Some data"
      "fst (parse_conversations isoformat self T io mx gc) =
         (if gc then map group_consecutive_messages else (\<lambda>x. x))
           (close_last io (foldl (loop_body isoformat (user_mapping self) T io mx) ([], [])
              (sort_key (\<lambda>x. get_timestamp_ms x)
                 (get_messages data))))"
proof (cases "messages_data self")
  case None
  then have "fst (parse_conversations isoformat self T io mx gc) = []"
    by (simp add: parse_conversations_def)
  then show ?thesis by (rule early)
next
  case (Some data)
  define sm where "sm = sort_key (\<lambda>x. get_timestamp_ms x)
                 (get_messages data)"
  show ?thesis
  proof (cases "sm = []")
    case True
    then have "fst (parse_conversations isoformat self T io mx gc) = []"
      unfolding sm_def by (rule parse_conversations_no_messages[OF Some])
    then show ?thesis by (rule early)
  next
    case False
    have "fst (parse_conversations isoformat self T io mx gc) =
         (if gc then map group_consecutive_messages else (\<lambda>x. x))
           (close_last io (foldl (loop_body isoformat (user_mapping self) T io mx) ([], []) sm))"
      by (rule parse_conversations_loaded[OF Some sm_def[symmetric] False])
    from this[unfolded sm_def] show ?thesis by (rule run[OF Some])
  qed
qed

lemma close_last_length:
  assumes "foldl (loop_body isoformat um T io mx) ([], []) ms = st"
  shows "\<forall>c\<in>set (close_last io st). int (length c) \<le> max 1 mx"
proof -
  obtain convs cur where st: "st = (convs, cur)" by (cases st)
  from foldl_loop_body_length[of "[]" mx "[]" isoformat um T io ms convs cur] assms st
  show ?thesis by (auto simp: close_last_def)
qed

lemma close_last_valid:
  assumes "foldl (loop_body isoformat um T io mx) ([], []) ms = st"
  shows "\<forall>c\<in>set (close_last io st). c \<noteq> [] \<and> is_valid_conversation c io"
proof -
  obtain convs cur where st: "st = (convs, cur)" by (cases st)
  from foldl_loop_body_valid[of "[]" io isoformat um T mx "[]" ms convs cur] assms st
  show ?thesis by (auto simp: close_last_def)
qed

lemma close_last_subseq:
  assumes "foldl (loop_body isoformat um T io mx) ([], []) ms = st"
  shows "subseq (concat (close_last io st))
           (map (processed_msg isoformat um) (filter (\<lambda>m. raw_message.content m \<noteq> None) ms))"
proof -
  obtain convs cur where st: "st = (convs, cur)" by (cases st)
  have 1: "subseq (concat convs @ cur)
           (map (processed_msg isoformat um) (filter (\<lambda>m. raw_message.content m \<noteq> None) ms))"
    using foldl_loop_body_subseq[of isoformat um T io mx "[]" "[]" ms convs cur] assms st by simp
  have 2: "subseq (concat (close_last io st)) (concat convs @ cur)"
    by (simp add: close_last_def st subseq_rev_drop_many)
  from 2 1 show ?thesis by (rule subseq_order.trans)
qed

lemma close_last_concat:
  assumes "foldl (loop_body isoformat um T False mx) ([], []) ms = st"
  shows "concat (close_last False st) =
           map (processed_msg isoformat um) (filter (\<lambda>m. raw_message.content m \<noteq> None) ms)"
proof -
  obtain convs cur where st: "st = (convs, cur)" by (cases st)
  have 1: "concat convs @ cur =
           map (processed_msg isoformat um) (filter (\<lambda>m. raw_message.content m \<noteq> None) ms)"
    using foldl_loop_body_concat[of isoformat um T mx "[]" "[]" ms convs cur] assms st by simp
  have 2: "concat (close_last False st) = concat convs @ cur"
    by (simp add: close_last_def st is_valid_conversation_def)
  from 2 1 show ?thesis by simp
qed

lemma timestamp_ms_processed_msg [simp]:
  "message.timestamp_ms (processed_msg isoformat um m) = get_timestamp_ms m"
  by (simp add: processed_msg_def Let_def)

lemma sorted_processed:
  "sorted (map message.timestamp_ms
     (map (processed_msg isoformat um)
        (filter P (sort_key (\<lambda>x. get_timestamp_ms x) ms))))"
proof -
  have "map message.timestamp_ms (map (processed_msg isoformat um)
          (filter P (sort_key (\<lambda>x. get_timestamp_ms x) ms)))
        = map (\<lambda>x. get_timestamp_ms x) (filter P (sort_key (\<lambda>x. get_timestamp_ms x) ms))"
    by (simp add: comp_def)
  moreover have "sorted (map (\<lambda>x. get_timestamp_ms x) (filter P (sort_key (\<lambda>x. get_timestamp_ms x) ms)))"
    by (rule sorted_filter) (rule sorted_sort_key)
  ultimately show ?thesis by (simp only:)
qed

lemma group_concat_ts_subseq:
  "subseq (map message.timestamp_ms (concat (map group_consecutive_messages cs)))
          (map message.timestamp_ms (concat cs))"
proof (induction cs)
  case Nil
  show ?case by simp
next
  case (Cons c cs)
  have "subseq (map message.timestamp_ms (group_consecutive_messages c)
                  @ map message.timestamp_ms (concat (map group_consecutive_messages cs)))
               (map message.timestamp_ms c @ map message.timestamp_ms (concat cs))"
    by (rule list_emb_append_mono[OF group_ts_subseq Cons])
  then show ?case by simp
qed

lemma sorted_concat_heads:
  fixes f :: "'a \<Rightarrow> int"
  assumes "sorted (map f (concat xss))" "\<forall>xs\<in>set xss. xs \<noteq> []"
  shows "sorted (map (\<lambda>c. f (hd c)) xss) \<and> (\<forall>xs\<in>set xss. sorted (map f xs))"
  using assms
proof (induction xss)
  case Nil
  show ?case by simp
next
  case (Cons xs xss)
  have s: "sorted (map f xs)" "sorted (map f (concat xss))"
    and le: "\<forall>a\<in>set xs. \<forall>b\<in>set (concat xss). f a \<le> f b"
    using Cons.prems(1) by (auto simp: sorted_append)
  have ne: "xs \<noteq> []" "\<forall>ys\<in>set xss. ys \<noteq> []" using Cons.prems(2) by simp_all
  have IH: "sorted (map (\<lambda>c. f (hd c)) xss)" "\<forall>ys\<in>set xss. sorted (map f ys)"
    using Cons.IH[OF s(2) ne(2)] by simp_all
  have "\<forall>ys\<in>set xss. f (hd xs) \<le> f (hd ys)"
  proof
    fix ys assume ys: "ys \<in> set xss"
    then have "ys \<noteq> []" using ne(2) by simp
    then have "hd ys \<in> set ys" by simp
    then have "hd ys \<in> set (concat xss)" using ys by auto
    moreover have "hd xs \<in> set xs" using ne(1) by simp
    ultimately show "f (hd xs) \<le> f (hd ys)" using le by blast
  qed
  then show ?case using IH s(1) by simp
qed

lemma parse_result_sorted:
  "sorted (map message.timestamp_ms (concat (fst (parse_conversations isoformat self T io mx gc))))"
proof (cases rule: parse_conversations_cases[of isoformat self T io mx gc])
  case early
  then show ?thesis by simp
next
  case (run data)
  define sm where "sm = sort_key (\<lambda>x. get_timestamp_ms x)
                 (get_messages data)"
  define F where "F = close_last io (foldl (loop_body isoformat (user_mapping self) T io mx) ([], []) sm)"
  have "subseq (concat F) (map (processed_msg isoformat (user_mapping self))
                             (filter (\<lambda>m. raw_message.content m \<noteq> None) sm))"
    unfolding F_def by (rule close_last_subseq) simp
  then have "subseq (map message.timestamp_ms (concat F))
     (map message.timestamp_ms (map (processed_msg isoformat (user_mapping self))
                             (filter (\<lambda>m. raw_message.content m \<noteq> None) sm)))"
    by (rule subseq_map)
  then have sF: "sorted (map message.timestamp_ms (concat F))"
    unfolding sm_def by (rule subseq_sorted) (rule sorted_processed)
  have "sorted (map message.timestamp_ms (concat (map group_consecutive_messages F)))"
    by (rule subseq_sorted[OF group_concat_ts_subseq sF])
  with sF show ?thesis using run(2) unfolding F_def sm_def by simp
qed

lemma parse_result_nonempty:
  "c \<in> set (fst (parse_conversations isoformat self T io mx gc)) \<Longrightarrow> c \<noteq> []"
proof (cases rule: parse_conversations_cases[of isoformat self T io mx gc])
  case early
  assume "c \<in> set (fst (parse_conversations isoformat self T io mx gc))"
  then show ?thesis using early by simp
next
  case (run data)
  assume c: "c \<in> set (fst (parse_conversations isoformat self T io mx gc))"
  define F where "F = close_last io (foldl (loop_body isoformat (user_mapping self) T io mx) ([], [])
       (sort_key (\<lambda>x. get_timestamp_ms x) (get_messages data)))"
  have "\<forall>c\<in>set F. c \<noteq> [] \<and> is_valid_conversation c io"
    unfolding F_def by (rule close_last_valid) simp
  then show ?thesis using c run(2) unfolding F_def[symmetric]
    by (auto simp: group_nonempty split: if_splits)
qed

lemma group_senders_image:
  "sender ` set (group_consecutive_messages c) = sender ` set c"
  using group_senders[of c] by simp

lemma parse_result_valid:
  "c \<in> set (fst (parse_conversations isoformat self T True mx gc)) \<Longrightarrow>
   2 \<le> card (set (map sender c))"
proof (cases rule: parse_conversations_cases[of isoformat self T True mx gc])
  case early
  assume "c \<in> set (fst (parse_conversations isoformat self T True mx gc))"
  then show ?thesis using early by simp
next
  case (run data)
  assume c: "c \<in> set (fst (parse_conversations isoformat self T True mx gc))"
  define F where "F = close_last True (foldl (loop_body isoformat (user_mapping self) T True mx) ([], [])
       (sort_key (\<lambda>x. get_timestamp_ms x) (get_messages data)))"
  have "\<forall>c\<in>set F. c \<noteq> [] \<and> is_valid_conversation c True"
    unfolding F_def by (rule close_last_valid) simp
  then have "\<forall>c\<in>set F. 2 \<le> card (set (map sender c))"
    by (simp add: is_valid_conversation_def)
  then show ?thesis using c run(2) unfolding F_def[symmetric]
    by (auto simp: group_senders_image split: if_splits)
qed

lemma parse_result_length:
  "c \<in> set (fst (parse_conversations isoformat self T io mx gc)) \<Longrightarrow>
   int (length c) \<le> max 1 mx"
proof (cases rule: parse_conversations_cases[of isoformat self T io mx gc])
  case early
  assume "c \<in> set (fst (parse_conversations isoformat self T io mx gc))"
  then show ?thesis using early by simp
next
  case (run data)
  assume c: "c \<in> set (fst (parse_conversations isoformat self T io mx gc))"
  define F where "F = close_last io (foldl (loop_body isoformat (user_mapping self) T io mx) ([], [])
       (sort_key (\<lambda>x. get_timestamp_ms x) (get_messages data)))"
  have F: "\<forall>c\<in>set F. int (length c) \<le> max 1 mx"
    unfolding F_def by (rule close_last_length) simp
  show ?thesis
  proof (cases gc)
    case False
    then show ?thesis using c run(2) F unfolding F_def[symmetric] by simp
  next
    case True
    then obtain c0 where c0: "c0 \<in> set F" "c = group_consecutive_messages c0"
      using c run(2) unfolding F_def[symmetric] by auto
    have "length c \<le> length c0" unfolding c0(2) by (rule length_group)
    moreover have "int (length c0) \<le> max 1 mx" using F c0(1) by simp
    ultimately show ?thesis by linarith
  qed
qed

section \<open>Evaluation of the examples\<close>

lemma eval_lower_names:
  "str_lower ''User Name'' = ''user name''" "str_lower ''Other Person'' = ''other person''"
  by code_simp+

lemma replace_username_test:
  "replace_username test_mapping ''User Name'' = ''user''"
  "replace_username test_mapping ''Other Person'' = ''friend''"
  by (simp_all add: test_mapping_def eval_lower_names)

lemma not_placeholder:
  "str_lower (str_strip ''Hello'') \<noteq> ''enviaste un archivo adjunto.''"
  "str_lower (str_strip ''Hi'') \<noteq> ''enviaste un archivo adjunto.''"
  "str_lower (str_strip ''How are you?'') \<noteq> ''enviaste un archivo adjunto.''"
  "str_lower (str_strip ''Fine'') \<noteq> ''enviaste un archivo adjunto.''"
  "str_lower (str_strip ''hi'') \<noteq> ''enviaste un archivo adjunto.''"
  "str_lower (str_strip ''there'') \<noteq> ''enviaste un archivo adjunto.''"
  by code_simp+

lemma processed_msg_raw_test:
  "str_lower (str_strip c) \<noteq> ''enviaste un archivo adjunto.'' \<Longrightarrow>
   processed_msg isoformat um (raw s c t) = msg isoformat (replace_username um s) c t"
  by (simp add: processed_msg_def raw_def msg_def get_timestamp_ms_def Let_def)



lemma should_group_messages_eq:
  "conversation \<noteq> [] \<Longrightarrow>
   should_group_messages msg1 msg2 T conversation =
     ((of_int \<bar>message.timestamp_ms msg2 - message.timestamp_ms msg1\<bar> :: rat) / 1000
        \<le> of_int (if 2 \<le> card (set (map sender conversation)) then T else 60))"
proof -
  have "(1 < card (set (map sender conversation)))
        = (2 \<le> card (set (map sender conversation)))"
    by auto
  then show ?thesis
    unfolding should_group_messages_def Let_def by simp
qed

lemma loop_body_open:
  assumes "raw_message.content message \<noteq> None" "cur \<noteq> []" "int (length cur) < mx"
  shows "loop_body isoformat um T io mx (convs, cur) message =
     (if should_group_messages (last cur) (processed_msg isoformat um message) T cur
      then (convs, cur @ [processed_msg isoformat um message])
      else ((if is_valid_conversation cur io then convs @ [cur] else convs),
            [processed_msg isoformat um message]))"
  using assms by (auto simp: loop_body_def Let_def)

lemma loop_body_full:
  assumes "raw_message.content message \<noteq> None" "cur \<noteq> []" "mx \<le> int (length cur)"
  shows "loop_body isoformat um T io mx (convs, cur) message =
     ((if is_valid_conversation cur io then convs @ [cur] else convs),
      [processed_msg isoformat um message])"
  using assms by (auto simp: loop_body_def Let_def)

lemma loop_body_first:
  assumes "raw_message.content message \<noteq> None"
  shows "loop_body isoformat um T io mx (convs, []) message =
     (convs, [processed_msg isoformat um message])"
  using assms by (auto simp: loop_body_def Let_def)

lemma sort_key_test_messages:
  "sort_key (\<lambda>x. get_timestamp_ms x) (test_messages t0) = test_messages t0"
  by (simp add: test_messages_def raw_def get_timestamp_ms_def)



lemma content_raw [simp]: "raw_message.content (raw s c t) \<noteq> None"
  by (simp add: raw_def)

lemma msg_sel [simp]:
  "sender (msg isoformat s c t) = s" "message.content (msg isoformat s c t) = c"
  "message.timestamp_ms (msg isoformat s c t) = t"
  by (simp_all add: msg_def)

lemma card_set_remdups: "card (set xs) = length (remdups xs)"
  by (simp add: length_remdups_card_conv)



lemma foldl_test_10:
  "foldl (loop_body isoformat test_mapping 10 io 10) ([], []) (test_messages t0) =
     ([ [msg isoformat ''user'' ''Hello'' t0,
        msg isoformat ''friend'' ''Hi'' (t0 + 15000),
        msg isoformat ''user'' ''How are you?'' (t0 + 20000)] ],
      [msg isoformat ''friend'' ''Fine'' (t0 + 90000)])"
proof -
  let ?m0 = "msg isoformat ''user'' ''Hello'' t0"
  let ?m1 = "msg isoformat ''friend'' ''Hi'' (t0 + 15000)"
  let ?m2 = "msg isoformat ''user'' ''How are you?'' (t0 + 20000)"
  let ?m3 = "msg isoformat ''friend'' ''Fine'' (t0 + 90000)"
  let ?step = "loop_body isoformat test_mapping 10 io 10"
  have p: "processed_msg isoformat test_mapping (raw ''User Name'' ''Hello'' t0) = ?m0"
     "processed_msg isoformat test_mapping (raw ''Other Person'' ''Hi'' (t0 + 15000)) = ?m1"
     "processed_msg isoformat test_mapping (raw ''User Name'' ''How are you?'' (t0 + 20000)) = ?m2"
     "processed_msg isoformat test_mapping (raw ''Other Person'' ''Fine'' (t0 + 90000)) = ?m3"
    by (simp_all add: processed_msg_raw_test not_placeholder replace_username_test)
  have 1: "?step ([], []) (raw ''User Name'' ''Hello'' t0) = ([], [?m0])"
    by (simp add: loop_body_first p)
  have 2: "?step ([], [?m0]) (raw ''Other Person'' ''Hi'' (t0 + 15000)) = ([], [?m0, ?m1])"
    by (simp add: loop_body_open should_group_messages_eq p)
  have 3: "?step ([], [?m0, ?m1]) (raw ''User Name'' ''How are you?'' (t0 + 20000)) = ([], [?m0, ?m1, ?m2])"
    by (simp add: loop_body_open should_group_messages_eq p)
  have v: "is_valid_conversation [?m0, ?m1, ?m2] io"
    unfolding is_valid_conversation_def card_set_remdups by simp
  have 4: "?step ([], [?m0, ?m1, ?m2]) (raw ''Other Person'' ''Fine'' (t0 + 90000)) = ([ [?m0, ?m1, ?m2] ], [?m3])"
    by (simp add: loop_body_open should_group_messages_eq p v)
  show ?thesis
    by (simp add: test_messages_def 1 2 3 4)
qed

lemma test_parser_sel [simp]:
  "messages_data (test_parser t0) = Some (export (test_messages t0))"
  "user_mapping (test_parser t0) = test_mapping"
  by (simp_all add: test_parser_def init_def)

lemma get_messages_export [simp]: "get_messages (export ms) = ms"
  by (simp add: get_messages_def export_def)

lemma test_messages_nonempty [simp]: "test_messages t0 \<noteq> []"
  by (simp add: test_messages_def)

lemma parse_test_10:
  "fst (parse_conversations isoformat (test_parser t0) 10 io 10 False) =
     (if io
      then [ [msg isoformat ''user'' ''Hello'' t0,
             msg isoformat ''friend'' ''Hi'' (t0 + 15000),
             msg isoformat ''user'' ''How are you?'' (t0 + 20000)] ]
      else [ [msg isoformat ''user'' ''Hello'' t0,
             msg isoformat ''friend'' ''Hi'' (t0 + 15000),
             msg isoformat ''user'' ''How are you?'' (t0 + 20000)],
            [msg isoformat ''friend'' ''Fine'' (t0 + 90000)] ])"
proof -
  have v: "is_valid_conversation [msg isoformat ''friend'' ''Fine'' (t0 + 90000)] io = (\<not> io)"
    unfolding is_valid_conversation_def card_set_remdups by simp
  have "fst (parse_conversations isoformat (test_parser t0) 10 io 10 False) =
          close_last io (foldl (loop_body isoformat test_mapping 10 io 10) ([], []) (test_messages t0))"
    using parse_conversations_loaded[of "test_parser t0" "export (test_messages t0)" "test_messages t0"
            isoformat 10 io 10 False]
    by (simp add: sort_key_test_messages)
  then show ?thesis
    by (simp add: foldl_test_10 close_last_def v)
qed

lemma processed_msg_legacy_raw:
  "processed_msg_legacy isoformat um (raw s c t) = msg isoformat (replace_username um s) c t"
  by (simp add: processed_msg_legacy_def raw_def msg_def get_timestamp_ms_def)

lemma loop_body_legacy_first:
  "raw_message.content message \<noteq> None \<Longrightarrow>
   loop_body_legacy isoformat um T (convs, []) message =
     (convs, [processed_msg_legacy isoformat um message])"
  by (auto simp: loop_body_legacy_def Let_def)

lemma loop_body_legacy_open:
  "raw_message.content message \<noteq> None \<Longrightarrow> cur \<noteq> [] \<Longrightarrow>
   loop_body_legacy isoformat um T (convs, cur) message =
     (if (of_int \<bar>message.timestamp_ms (processed_msg_legacy isoformat um message)
                  - message.timestamp_ms (last cur)\<bar> :: rat) / 1000 \<le> of_int T
      then (convs, cur @ [processed_msg_legacy isoformat um message])
      else (convs @ [cur], [processed_msg_legacy isoformat um message]))"
  by (auto simp: loop_body_legacy_def should_group_messages_legacy_def Let_def)

lemma parse_legacy_test_10:
  "fst (parse_conversations_legacy isoformat (test_parser t0) 10) =
     [ [msg isoformat ''user'' ''Hello'' t0],
      [msg isoformat ''friend'' ''Hi'' (t0 + 15000),
       msg isoformat ''user'' ''How are you?'' (t0 + 20000)],
      [msg isoformat ''friend'' ''Fine'' (t0 + 90000)] ]"
proof -
  let ?m0 = "msg isoformat ''user'' ''Hello'' t0"
  let ?m1 = "msg isoformat ''friend'' ''Hi'' (t0 + 15000)"
  let ?m2 = "msg isoformat ''user'' ''How are you?'' (t0 + 20000)"
  let ?m3 = "msg isoformat ''friend'' ''Fine'' (t0 + 90000)"
  let ?step = "loop_body_legacy isoformat test_mapping 10"
  have 1: "?step ([], []) (raw ''User Name'' ''Hello'' t0) = ([], [?m0])"
    by (simp add: loop_body_legacy_first processed_msg_legacy_raw replace_username_test)
  have 2: "?step ([], [?m0]) (raw ''Other Person'' ''Hi'' (t0 + 15000)) = ([ [?m0] ], [?m1])"
    by (simp add: loop_body_legacy_open processed_msg_legacy_raw replace_username_test)
  have 3: "?step ([ [?m0] ], [?m1]) (raw ''User Name'' ''How are you?'' (t0 + 20000)) = ([ [?m0] ], [?m1, ?m2])"
    by (simp add: loop_body_legacy_open processed_msg_legacy_raw replace_username_test)
  have 4: "?step ([ [?m0] ], [?m1, ?m2]) (raw ''Other Person'' ''Fine'' (t0 + 90000)) = ([ [?m0], [?m1, ?m2] ], [?m3])"
    by (simp add: loop_body_legacy_open processed_msg_legacy_raw replace_username_test)
  have f: "foldl ?step ([], []) (test_messages t0) = ([ [?m0], [?m1, ?m2] ], [?m3])"
    by (simp add: test_messages_def 1 2 3 4)
  show ?thesis
    by (simp add: parse_conversations_legacy_def sort_key_test_messages f Let_def)
qed

lemma parse_single_cap0:
  "fst (parse_conversations isoformat
          ((init [])\<lparr>messages_data := Some (export [raw ''A'' ''hi'' 1000])\<rparr>) 30 False 0 False)
   = [ [msg isoformat ''A'' ''hi'' 1000] ]"
proof -
  let ?p = "(init [])\<lparr>messages_data := Some (export [raw ''A'' ''hi'' 1000])\<rparr>"
  have s: "sort_key (\<lambda>x. get_timestamp_ms x) (get_messages (export [raw ''A'' ''hi'' 1000]))
           = [raw ''A'' ''hi'' 1000]" by simp
  have "fst (parse_conversations isoformat ?p 30 False 0 False) =
          close_last False (foldl (loop_body isoformat [] 30 False 0) ([], []) [raw ''A'' ''hi'' 1000])"
    using parse_conversations_loaded[of ?p "export [raw ''A'' ''hi'' 1000]" "[raw ''A'' ''hi'' 1000]"
            isoformat 30 False 0 False] s
    by (simp add: init_def)
  then show ?thesis
    by (simp add: loop_body_first close_last_def is_valid_conversation_def
                  processed_msg_raw_test not_placeholder)
qed

lemma two_senders_length:
  assumes "2 \<le> card (set (map sender c))"
  shows "2 \<le> length c"
proof -
  have "card (set (map sender c)) \<le> length (map sender c)" by (rule card_length)
  with assms show ?thesis by simp
qed

lemma parse_concat_unfiltered:
  assumes "messages_data self = Some data"
  shows "concat (fst (parse_conversations isoformat self T False mx False)) =
           map (processed_msg isoformat (user_mapping self))
             (filter (\<lambda>m. raw_message.content m \<noteq> None)
                (sort_key (\<lambda>x. get_timestamp_ms x) (get_messages data)))"
proof -
  define sm where "sm = sort_key (\<lambda>x. get_timestamp_ms x) (get_messages data)"
  show ?thesis
  proof (cases "sm = []")
    case True
    then show ?thesis using assms unfolding sm_def
      by (simp add: parse_conversations_def)
  next
    case False
    have "fst (parse_conversations isoformat self T False mx False) =
            close_last False (foldl (loop_body isoformat (user_mapping self) T False mx) ([], []) sm)"
      using parse_conversations_loaded[OF assms sm_def[symmetric] False, of isoformat T False mx False]
      by simp
    then show ?thesis unfolding sm_def[symmetric]
      by (simp add: close_last_concat)
  qed
qed

lemma eval_placeholder:
  "str_lower (str_strip ''Enviaste un archivo adjunto.'') = ''enviaste un archivo adjunto.''"
  "str_strip '' '' = ''''"
  "str_strip '' cat '' = ''cat''"
  by code_simp+

lemma str_strip_Nil [simp]: "str_strip '''' = ''''"
  by (simp add: str_strip_def)

lemma processed_blank_share:
  "message.content (processed_msg isoformat [] blank_share_message) = ''[image from A]''"
  by (simp add: processed_msg_def blank_share_message_def eval_placeholder Let_def)

lemma parse_group_consecutive:
  "fst (parse_conversations isoformat self T io mx True) =
   map group_consecutive_messages (fst (parse_conversations isoformat self T io mx False))"
  by (simp add: parse_conversations_def Let_def split: option.splits prod.splits)

lemma group_example:
  "group_consecutive_messages
     [msg render ''user'' ''hi'' 1000, msg render ''user'' ''there'' 2000,
      msg render ''friend'' ''yes'' 3000]
   = [\<lparr>sender = ''user'', content = ''hi, there'', timestamp_ms = 2000, timestamp = Some (render 2000)\<rparr>,
      \<lparr>sender = ''friend'', content = ''yes'', timestamp_ms = 3000, timestamp = Some (render 3000)\<rparr>]"
  by (simp add: group_consecutive_messages_def msg_def)

lemma processed_empty_content:
  "raw_message.content message = Some '''' \<Longrightarrow>
   message.content (processed_msg isoformat um message) = ''''"
  by (simp add: processed_msg_def Let_def str_lower_def)

lemma loop_body_last:
  assumes "raw_message.content message \<noteq> None"
  shows "snd (loop_body isoformat um T io mx (convs, cur) message) \<noteq> []
       \<and> last (snd (loop_body isoformat um T io mx (convs, cur) message))
           = processed_msg isoformat um message"
  using loop_body_cases[OF assms, of isoformat um T io mx convs cur]
  by auto

lemma statistics_with_content:
  "messages_data self = Some data \<Longrightarrow> \<not> empty_object data \<Longrightarrow>
   map_option messages_with_content (get_statistics self) =
     Some (length (filter (\<lambda>m. raw_message.content m \<noteq> None) (get_messages data)))"
  by (simp add: get_statistics_def Let_def)

lemma fix_encoding_messages [simp]:
  "messages (fix_encoding repair d) = map_option (map (fix_message repair)) (messages d)"
  by (simp add: fix_encoding_def)

section \<open>The claims\<close>

text \<open>
  Claim C1. In the streaming partition, a message with content that meets an open
  conversation which is neither empty nor full is appended exactly when the gap to the
  last message of the open conversation, \<open>|ts - ts_last| / 1000\<close>, is at most the effective
  threshold: \<open>time_threshold_seconds\<close> when the open conversation already has two distinct
  senders, the constant 60 otherwise. When the gap is larger the open conversation is
  closed through the validity filter and the message starts the next one.
\<close>

theorem gap_rule:
  assumes "raw_message.content message \<noteq> None"
    and "current_conversation \<noteq> []"
    and "int (length current_conversation) < max_messages"
  shows "loop_body isoformat um time_threshold_seconds interchange_only max_messages
           (convs, current_conversation) message =
     (let current = processed_msg isoformat um message;
          gap = (of_int \<bar>message.timestamp_ms current
                          - message.timestamp_ms (last current_conversation)\<bar> :: rat) / 1000;
          effective = (if 2 \<le> card (set (map sender current_conversation))
                       then time_threshold_seconds else 60)
      in if gap \<le> of_int effective
         then (convs, current_conversation @ [current])
         else ((if is_valid_conversation current_conversation interchange_only
                then convs @ [current_conversation] else convs), [current]))"
  unfolding Let_def loop_body_open[OF assms] should_group_messages_eq[OF assms(2)] ..

theorem gap_rule_witness:
  "raw_message.content (raw ''Other Person'' ''Hi'' 15000) \<noteq> None
   \<and> [msg render ''user'' ''Hello'' 0] \<noteq> []
   \<and> int (length [msg render ''user'' ''Hello'' 0]) < 10
   \<and> loop_body render test_mapping 10 True 10
        ([], [msg render ''user'' ''Hello'' 0]) (raw ''Other Person'' ''Hi'' 15000)
      = ([], [msg render ''user'' ''Hello'' 0, msg render ''friend'' ''Hi'' 15000])"
  using gap_rule[of "raw ''Other Person'' ''Hi'' 15000" "[msg render ''user'' ''Hello'' 0]" 10
                    render test_mapping 10 True "[]"]
  by (simp add: processed_msg_raw_test not_placeholder replace_username_test Let_def)

text \<open>
  Claim C2, as stated, fails for a cap below 1. With \<open>max_messages = 0\<close> and the filter off,
  an export of one message yields a conversation of one message, which is more than 0:
  the first message always opens a conversation, whatever the cap.
\<close>

theorem cap_counterexample:
  "[msg render ''A'' ''hi'' 1000] \<in>
     set (fst (parse_conversations render
           ((init [])\<lparr>messages_data := Some (export [raw ''A'' ''hi'' 1000])\<rparr>) 30 False 0 False))
   \<and> \<not> int (length [msg render ''A'' ''hi'' 1000]) \<le> 0"
  by (simp add: parse_single_cap0)

text \<open>
  Claim C2, amended. When \<open>max_messages\<close> is at least 1, or the interchange filter is on,
  every conversation returned by \<open>parse_conversations\<close> has at most \<open>max_messages\<close>
  messages. And the cap is tested before the gap: a message with content that meets a
  non-empty open conversation of \<open>max_messages\<close> messages or more closes it (through the
  validity filter) and starts the next one, for every threshold and every time stamp.
\<close>

theorem cap:
  assumes "1 \<le> max_messages \<or> interchange_only"
  shows "(\<forall>c \<in> set (fst (parse_conversations isoformat self time_threshold_seconds
                             interchange_only max_messages group_consecutive)).
            int (length c) \<le> max_messages)
       \<and> (\<forall>convs (current_conversation :: conversation) (message :: raw_message) T.
            raw_message.content message \<noteq> None \<and> current_conversation \<noteq> []
            \<and> max_messages \<le> int (length current_conversation) \<longrightarrow>
            loop_body isoformat (user_mapping self) T interchange_only max_messages
                (convs, current_conversation) message =
              ((if is_valid_conversation current_conversation interchange_only
                then convs @ [current_conversation] else convs),
               [processed_msg isoformat (user_mapping self) message]))"
proof (intro conjI ballI allI impI)
  fix c
  assume c: "c \<in> set (fst (parse_conversations isoformat self time_threshold_seconds
                             interchange_only max_messages group_consecutive))"
  then have le: "int (length c) \<le> max 1 max_messages" by (rule parse_result_length)
  show "int (length c) \<le> max_messages"
  proof (cases "1 \<le> max_messages")
    case True
    with le show ?thesis by simp
  next
    case False
    with assms have io: interchange_only by simp
    have "2 \<le> card (set (map sender c))"
      using c unfolding io[THEN eqTrueI] by (rule parse_result_valid)
    then have "2 \<le> length c" by (rule two_senders_length)
    with le False show ?thesis by simp
  qed
next
  fix convs and current_conversation :: conversation and message :: raw_message and T
  assume "raw_message.content message \<noteq> None \<and> current_conversation \<noteq> []
            \<and> max_messages \<le> int (length current_conversation)"
  then show "loop_body isoformat (user_mapping self) T interchange_only max_messages
                (convs, current_conversation) message =
              ((if is_valid_conversation current_conversation interchange_only
                then convs @ [current_conversation] else convs),
               [processed_msg isoformat (user_mapping self) message])"
    by (simp add: loop_body_full)
qed

text \<open>
  The amended claim C2 on the export of the tests, with a cap of 10, and on a full
  conversation with a cap of 1.
\<close>

theorem cap_witness:
  "(1::int) \<le> 10
   \<and> int (length [msg render ''user'' ''Hello'' 0,
                    msg render ''friend'' ''Hi'' 15000,
                    msg render ''user'' ''How are you?'' 20000]) \<le> 10
   \<and> loop_body render test_mapping 0 True 1
         ([], [msg render ''user'' ''Hello'' 0]) (raw ''Other Person'' ''Hi'' 1)
       = ([], [msg render ''friend'' ''Hi'' 1])"
  using cap[where max_messages = 10 and interchange_only = True and isoformat = render
              and self = "test_parser 0" and time_threshold_seconds = 10
              and group_consecutive = False]
        cap[where max_messages = 1 and interchange_only = True and isoformat = render
              and self = "test_parser 0" and time_threshold_seconds = 10
              and group_consecutive = False, THEN conjunct2, rule_format,
            where message = "raw ''Other Person'' ''Hi'' 1"
              and current_conversation = "[msg render ''user'' ''Hello'' 0]"
              and convs = "[]" and T = 0]
  by (simp add: parse_test_10 processed_msg_raw_test not_placeholder replace_username_test
                is_valid_conversation_def)

text \<open>
  Claim C3. With \<open>interchange_only\<close>, every conversation returned by
  \<open>parse_conversations\<close>, the last one included and with or without the merge of
  consecutive messages, has at least two distinct senders. Without it the validity
  filter accepts every conversation, so every closed conversation is emitted: the
  conversations returned are, end to end, all the processed messages with content, in
  time order.
\<close>

theorem interchange_filter:
  "(interchange_only \<longrightarrow>
      (\<forall>c \<in> set (fst (parse_conversations isoformat self time_threshold_seconds
                            interchange_only max_messages group_consecutive)).
         2 \<le> card (set (map sender c))))
   \<and> (\<not> interchange_only \<longrightarrow>
        (\<forall>c. is_valid_conversation c interchange_only)
        \<and> (\<forall>data. messages_data self = Some data \<longrightarrow>
              concat (fst (parse_conversations isoformat self time_threshold_seconds
                             interchange_only max_messages False)) =
              map (processed_msg isoformat (user_mapping self))
                (filter (\<lambda>m. raw_message.content m \<noteq> None)
                   (sort_key (\<lambda>x. get_timestamp_ms x) (get_messages data)))))"
proof (cases interchange_only)
  case True
  then show ?thesis by (auto dest: parse_result_valid)
next
  case False
  then show ?thesis
    by (simp add: is_valid_conversation_def parse_concat_unfiltered)
qed

text \<open>
  Claim C3 on the export of the tests, with the filter and without.
\<close>

theorem interchange_filter_witness:
  "2 \<le> card (set (map sender [msg render ''user'' ''Hello'' 0,
                                 msg render ''friend'' ''Hi'' 15000,
                                 msg render ''user'' ''How are you?'' 20000]))
   \<and> is_valid_conversation [msg render ''friend'' ''Fine'' 90000] False
   \<and> concat (fst (parse_conversations render (test_parser 0) 10 False 10 False)) =
         map (processed_msg render test_mapping) (test_messages 0)"
  using interchange_filter[of True render "test_parser 0" 10 10 False]
        interchange_filter[of False render "test_parser 0" 10 10 False]
  by (simp add: parse_test_10 sort_key_test_messages)
     (simp add: test_messages_def)

text \<open>
  Claim C4. The conversations returned by \<open>parse_conversations\<close> are ordered by the
  \<open>timestamp_ms\<close> of their first message (none is empty), and inside each conversation
  the messages are ordered by \<open>timestamp_ms\<close>, ascending.
\<close>

theorem chronological_order:
  "sorted (map (\<lambda>c. message.timestamp_ms (hd c))
            (fst (parse_conversations isoformat self time_threshold_seconds interchange_only
                    max_messages group_consecutive)))
   \<and> (\<forall>c \<in> set (fst (parse_conversations isoformat self time_threshold_seconds
                            interchange_only max_messages group_consecutive)).
         c \<noteq> [] \<and> sorted (map message.timestamp_ms c))"
proof -
  let ?R = "fst (parse_conversations isoformat self time_threshold_seconds interchange_only
                    max_messages group_consecutive)"
  have 1: "sorted (map message.timestamp_ms (concat ?R))" by (rule parse_result_sorted)
  have 2: "\<forall>c\<in>set ?R. c \<noteq> []" by (auto dest: parse_result_nonempty)
  from sorted_concat_heads[OF 1 2] 2 show ?thesis by simp
qed

text \<open>
  Claim C4 on the export of the tests.
\<close>

theorem chronological_order_witness:
  "sorted (map (\<lambda>c. message.timestamp_ms (hd c))
      [ [msg render ''user'' ''Hello'' 0,
        msg render ''friend'' ''Hi'' 15000,
        msg render ''user'' ''How are you?'' 20000],
       [msg render ''friend'' ''Fine'' 90000] ])
   \<and> sorted (map message.timestamp_ms
        [msg render ''user'' ''Hello'' 0,
         msg render ''friend'' ''Hi'' 15000,
         msg render ''user'' ''How are you?'' 20000])"
  using chronological_order[of render "test_parser 0" 10 False 10 False]
  by (simp add: parse_test_10)

text \<open>
  Claim C5, as stated, fails on the segmenter of \<^verbatim>\<open>src/src/parser.py\<close>. With a
  threshold of 10 the export of the tests gives one conversation when the filter is on
  (the default) and two when it is off, never three: the gap of 15 s after the first
  message is measured against the extended threshold of 60 s, since the open
  conversation has one sender.
\<close>

theorem scenario_counterexample:
  "length (fst (parse_conversations render (test_parser 1700000000000) 10 True 10 False)) = 1
   \<and> length (fst (parse_conversations render (test_parser 1700000000000) 10 False 10 False)) = 2
   \<and> fst (parse_conversations render (test_parser 1700000000000) 10 True 10 False) \<noteq>
        [ [msg render ''user'' ''Hello'' 1700000000000],
         [msg render ''friend'' ''Hi'' 1700000015000,
          msg render ''user'' ''How are you?'' 1700000020000],
         [msg render ''friend'' ''Fine'' 1700000090000] ]"
  by (simp add: parse_test_10)

text \<open>
  Claim C5, amended. For every start instant, the four messages at 0 s, 15 s, 20 s and
  90 s with a threshold of 10 give, on the segmenter of \<^verbatim>\<open>src/src/parser.py\<close>, one
  conversation of the first three messages when the filter is on; the message at 90 s
  is closed alone and dropped by the filter, and is a second conversation when the
  filter is off. The split in three (0 s alone, 15 s and 20 s together, 90 s alone) is
  what the first parser, \<^verbatim>\<open>src/parser.py\<close>, returns.
\<close>

theorem scenario_threshold_10:
  "fst (parse_conversations isoformat (test_parser t0) 10 True 10 False) =
     [ [msg isoformat ''user'' ''Hello'' t0,
       msg isoformat ''friend'' ''Hi'' (t0 + 15000),
       msg isoformat ''user'' ''How are you?'' (t0 + 20000)] ]
   \<and> fst (parse_conversations isoformat (test_parser t0) 10 False 10 False) =
     [ [msg isoformat ''user'' ''Hello'' t0,
       msg isoformat ''friend'' ''Hi'' (t0 + 15000),
       msg isoformat ''user'' ''How are you?'' (t0 + 20000)],
      [msg isoformat ''friend'' ''Fine'' (t0 + 90000)] ]
   \<and> fst (parse_conversations_legacy isoformat (test_parser t0) 10) =
     [ [msg isoformat ''user'' ''Hello'' t0],
      [msg isoformat ''friend'' ''Hi'' (t0 + 15000),
       msg isoformat ''user'' ''How are you?'' (t0 + 20000)],
      [msg isoformat ''friend'' ''Fine'' (t0 + 90000)] ]"
  by (simp add: parse_test_10 parse_legacy_test_10)

text \<open>
  The amended claim C5 at a concrete start instant.
\<close>

theorem scenario_threshold_10_witness:
  "length (fst (parse_conversations render (test_parser 1700000000000) 10 True 10 False)) = 1
   \<and> length (fst (parse_conversations_legacy render (test_parser 1700000000000) 10)) = 3"
  using scenario_threshold_10[of render 1700000000000]
  by simp

text \<open>
  Claim C6, as stated, fails on a \<^verbatim>\<open>share_text\<close> with white space around it. The record
  carries a \<^verbatim>\<open>share_text\<close> that is not empty (one blank), and the content is the short
  marker, not the marker with the \<^verbatim>\<open>share_text\<close>: the code trims the text and tests what
  is left.
\<close>

theorem attachment_counterexample:
  "raw_message.content blank_share_message = Some ''Enviaste un archivo adjunto.''
   \<and> str_lower (str_strip ''Enviaste un archivo adjunto.'') = ''enviaste un archivo adjunto.''
   \<and> share blank_share_message = Some \<lparr>share_text = Some '' ''\<rparr>
   \<and> '' '' \<noteq> ''''
   \<and> message.content (processed_msg render [] blank_share_message) = ''[image from A]''
   \<and> message.content (processed_msg render [] blank_share_message)
       \<noteq> ''[image from A:  ]''"
  by (simp add: processed_blank_share eval_placeholder) (simp add: blank_share_message_def)

text \<open>
  Claim C6, amended. For a raw message whose trimmed, lower-cased content is
  \<^verbatim>\<open>enviaste un archivo adjunto.\<close>, the content of the processed message is
  \<^verbatim>\<open>[image from {sender}: {t}]\<close>, with \<open>t\<close> the trimmed \<^verbatim>\<open>share.share_text\<close>, when the record
  carries a \<^verbatim>\<open>share_text\<close> and \<open>t\<close> is not empty, and \<^verbatim>\<open>[image from {sender}]\<close> otherwise;
  \<open>sender\<close> is the resolved sender. Every other content is carried verbatim.
\<close>

theorem attachment_rule:
  fixes message :: "'a raw_message_scheme"
  assumes "raw_message.content message = Some content_raw"
  shows "message.content (processed_msg isoformat um message) =
     (let sender = replace_username um (case sender_name message of None \<Rightarrow> '''' | Some s \<Rightarrow> s)
      in if str_lower (str_strip content_raw) = ''enviaste un archivo adjunto.''
         then (case Option.bind (share message) share_text of
                 Some st \<Rightarrow>
                   if str_strip st \<noteq> ''''
                   then ''[image from '' @ sender @ '': '' @ str_strip st @ '']''
                   else ''[image from '' @ sender @ '']''
               | None \<Rightarrow> ''[image from '' @ sender @ '']'')
         else content_raw)
     \<and> sender (processed_msg isoformat um message) =
         replace_username um (case sender_name message of None \<Rightarrow> '''' | Some s \<Rightarrow> s)"
proof -
  have strip: "(st \<noteq> '''' \<and> str_strip st \<noteq> '''') = (str_strip st \<noteq> '''')" for st
    by auto
  show ?thesis
    using assms
    by (cases "share message")
       (auto simp: processed_msg_def Let_def strip split: option.splits)
qed

text \<open>
  The amended claim C6 on the placeholder without \<^verbatim>\<open>share\<close> (scenario D of the
  specification) and with a \<^verbatim>\<open>share_text\<close> to trim.
\<close>

theorem attachment_rule_witness:
  "raw_message.content
     \<lparr>sender_name = Some ''User Name'', raw_message.content = Some ''Enviaste un archivo adjunto.'',
      raw_message.timestamp_ms = Some 1000, share = None\<rparr> = Some ''Enviaste un archivo adjunto.''
   \<and> message.content (processed_msg render test_mapping
         \<lparr>sender_name = Some ''User Name'', raw_message.content = Some ''Enviaste un archivo adjunto.'',
          raw_message.timestamp_ms = Some 1000, share = None\<rparr>) = ''[image from user]''
   \<and> raw_message.content
         \<lparr>sender_name = Some ''User Name'', raw_message.content = Some ''Enviaste un archivo adjunto.'',
          raw_message.timestamp_ms = Some 1000, share = Some \<lparr>share_text = Some '' cat ''\<rparr>\<rparr>
       = Some ''Enviaste un archivo adjunto.''
   \<and> message.content (processed_msg render test_mapping
         \<lparr>sender_name = Some ''User Name'', raw_message.content = Some ''Enviaste un archivo adjunto.'',
          raw_message.timestamp_ms = Some 1000, share = Some \<lparr>share_text = Some '' cat ''\<rparr>\<rparr>)
       = ''[image from user: cat]''"
  using attachment_rule[of "\<lparr>sender_name = Some ''User Name'',
            raw_message.content = Some ''Enviaste un archivo adjunto.'',
            raw_message.timestamp_ms = Some 1000, share = None\<rparr>"
          "''Enviaste un archivo adjunto.''" render test_mapping]
        attachment_rule[of "\<lparr>sender_name = Some ''User Name'',
            raw_message.content = Some ''Enviaste un archivo adjunto.'',
            raw_message.timestamp_ms = Some 1000, share = Some \<lparr>share_text = Some '' cat ''\<rparr>\<rparr>"
          "''Enviaste un archivo adjunto.''" render test_mapping]
  by (simp add: eval_placeholder replace_username_test)

text \<open>
  Claim C7. \<open>group_consecutive_messages\<close> turns each maximal run of adjacent messages of
  one sender into one message: the sender of the run, the contents of the run joined
  with comma-blank, the \<open>timestamp_ms\<close> and the \<open>timestamp\<close> of the last message of the
  run. The runs are what the conversation is cut into: they concatenate to it, none is
  empty, each has one sender, and two neighbours differ in sender. With
  \<open>group_consecutive\<close>, \<open>parse_conversations\<close> applies it to every conversation it emits.
\<close>

theorem merge_consecutive:
  "group_consecutive_messages conversation = map merge_run (runs conversation)
   \<and> concat (runs conversation) = conversation
   \<and> (\<forall>r \<in> set (runs conversation). r \<noteq> [] \<and> (\<forall>x \<in> set r. sender x = sender (hd r)))
   \<and> distinct_adj (map (\<lambda>r. sender (hd r)) (runs conversation))
   \<and> fst (parse_conversations isoformat self time_threshold_seconds interchange_only
             max_messages True) =
       map group_consecutive_messages
         (fst (parse_conversations isoformat self time_threshold_seconds interchange_only
                 max_messages False))"
proof (intro conjI ballI)
  show "group_consecutive_messages conversation = map merge_run (runs conversation)"
    by (rule group_consecutive_messages_runs)
  show "concat (runs conversation) = conversation"
    by (rule concat_runs)
  show "distinct_adj (map (\<lambda>r. sender (hd r)) (runs conversation))"
    by (rule runs_maximal)
  show "fst (parse_conversations isoformat self time_threshold_seconds interchange_only
             max_messages True) =
       map group_consecutive_messages
         (fst (parse_conversations isoformat self time_threshold_seconds interchange_only
                 max_messages False))"
    by (rule parse_group_consecutive)
next
  fix r assume "r \<in> set (runs conversation)"
  then show "r \<noteq> []" by (rule runs_nonempty)
next
  fix r x assume "r \<in> set (runs conversation)" "x \<in> set r"
  then show "sender x = sender (hd r)" by (rule runs_same_sender)
qed

text \<open>
  Claim C7 on scenario E of the specification: \<^verbatim>\<open>hi\<close> and \<^verbatim>\<open>there\<close> of one sender become
  \<^verbatim>\<open>hi, there\<close> with the later time stamp.
\<close>

theorem merge_consecutive_witness:
  "group_consecutive_messages
     [msg render ''user'' ''hi'' 1000, msg render ''user'' ''there'' 2000,
      msg render ''friend'' ''yes'' 3000]
   = [\<lparr>sender = ''user'', content = ''hi, there'', timestamp_ms = 2000, timestamp = Some (render 2000)\<rparr>,
      \<lparr>sender = ''friend'', content = ''yes'', timestamp_ms = 3000, timestamp = Some (render 3000)\<rparr>]"
  using merge_consecutive[of "[msg render ''user'' ''hi'' 1000,
                              msg render ''user'' ''there'' 2000,
                              msg render ''friend'' ''yes'' 3000]"
                             render "test_parser 0" 10 True 10]
  by (simp add: merge_run_def) (simp add: msg_def)

text \<open>
  Claim C9. \<open>group_consecutive_messages\<close> keeps the set of senders of a conversation and
  returns no two adjacent messages of one sender; so with \<open>interchange_only\<close> and
  \<open>group_consecutive\<close> every conversation returned still has two distinct senders,
  though the filter runs before the merge.
\<close>

theorem merge_keeps_senders:
  "set (map sender (group_consecutive_messages conversation)) = set (map sender conversation)
   \<and> (\<forall>i. Suc i < length (group_consecutive_messages conversation) \<longrightarrow>
          sender (group_consecutive_messages conversation ! i)
            \<noteq> sender (group_consecutive_messages conversation ! Suc i))
   \<and> (\<forall>c \<in> set (fst (parse_conversations isoformat self time_threshold_seconds True
                          max_messages True)).
         2 \<le> card (set (map sender c)))"
proof (intro conjI allI impI ballI)
  show "set (map sender (group_consecutive_messages conversation)) = set (map sender conversation)"
    by (rule group_senders)
next
  fix i assume i: "Suc i < length (group_consecutive_messages conversation)"
  have "distinct_adj (map sender (group_consecutive_messages conversation))"
    by (rule group_distinct_adj)
  then have "map sender (group_consecutive_messages conversation) ! i
             \<noteq> map sender (group_consecutive_messages conversation) ! Suc i"
    using i by (intro distinct_adj_nth) simp_all
  then show "sender (group_consecutive_messages conversation ! i)
            \<noteq> sender (group_consecutive_messages conversation ! Suc i)"
    using i by simp
next
  fix c
  assume "c \<in> set (fst (parse_conversations isoformat self time_threshold_seconds True
                          max_messages True))"
  then show "2 \<le> card (set (map sender c))" by (rule parse_result_valid)
qed

text \<open>
  Claim C9 on a conversation of three messages, and on the export of the tests.
\<close>

theorem merge_keeps_senders_witness:
  "set (map sender
     [\<lparr>sender = ''user'', content = ''hi, there'', timestamp_ms = 2000, timestamp = Some (render 2000)\<rparr>,
      \<lparr>sender = ''friend'', content = ''yes'', timestamp_ms = 3000, timestamp = Some (render 3000)\<rparr>])
   = set (map sender
     [msg render ''user'' ''hi'' 1000, msg render ''user'' ''there'' 2000,
      msg render ''friend'' ''yes'' 3000])
   \<and> Suc 0 < length
     [\<lparr>sender = ''user'', content = ''hi, there'', timestamp_ms = 2000, timestamp = Some (render 2000)\<rparr>,
      \<lparr>sender = ''friend'', content = ''yes'', timestamp_ms = 3000, timestamp = Some (render 3000)\<rparr>]
   \<and> ''user'' \<noteq> ''friend''
   \<and> 2 \<le> card (set (map sender
        [msg render ''user'' ''Hello'' 0,
         msg render ''friend'' ''Hi'' 15000,
         msg render ''user'' ''How are you?'' 20000]))"
proof -
  let ?c = "[msg render ''user'' ''hi'' 1000, msg render ''user'' ''there'' 2000,
      msg render ''friend'' ''yes'' 3000]"
  note w = merge_keeps_senders[of ?c render "test_parser 0" 10 10]
  have g: "group_consecutive_messages
             [msg render ''user'' ''Hello'' 0,
              msg render ''friend'' ''Hi'' 15000,
              msg render ''user'' ''How are you?'' 20000]
           = [msg render ''user'' ''Hello'' 0,
              msg render ''friend'' ''Hi'' 15000,
              msg render ''user'' ''How are you?'' 20000]"
    by (simp add: group_consecutive_messages_def)
  have p: "fst (parse_conversations render (test_parser 0) 10 True 10 True) =
           [ [msg render ''user'' ''Hello'' 0,
             msg render ''friend'' ''Hi'' 15000,
             msg render ''user'' ''How are you?'' 20000] ]"
    by (simp add: parse_group_consecutive parse_test_10 g)
  from w[THEN conjunct1] w[THEN conjunct2, THEN conjunct1, rule_format, of 0]
       w[THEN conjunct2, THEN conjunct2]
  show ?thesis
    unfolding group_example p by simp
qed

text \<open>
  Claim C10. The loop skips a raw record exactly when its \<^verbatim>\<open>content\<close> key is absent: then
  the state is unchanged, and otherwise the processed record is the last message of the
  open conversation after the step. A record whose content is the empty string is
  processed into a message with empty content. \<open>get_statistics\<close> counts in
  \<open>messages_with_content\<close> the records whose key is present, the empty ones included,
  and without the filter these records are the messages returned.
\<close>

theorem content_filter:
  fixes message :: raw_message
  shows "(raw_message.content message = None \<longrightarrow>
            loop_body isoformat um T io mx st message = st)
   \<and> (raw_message.content message \<noteq> None \<longrightarrow>
        snd (loop_body isoformat um T io mx (convs, cur) message) \<noteq> []
        \<and> last (snd (loop_body isoformat um T io mx (convs, cur) message))
            = processed_msg isoformat um message)
   \<and> (raw_message.content message = Some '''' \<longrightarrow>
        message.content (processed_msg isoformat um message) = '''')
   \<and> (messages_data self = Some data \<longrightarrow>
        (\<not> empty_object data \<longrightarrow>
           map_option messages_with_content (get_statistics self) =
             Some (length (filter (\<lambda>m. raw_message.content m \<noteq> None) (get_messages data))))
        \<and> concat (fst (parse_conversations isoformat self T False mx False)) =
            map (processed_msg isoformat (user_mapping self))
              (filter (\<lambda>m. raw_message.content m \<noteq> None)
                 (sort_key (\<lambda>x. get_timestamp_ms x) (get_messages data))))"
  by (simp add: loop_body_skip loop_body_last processed_empty_content
                statistics_with_content parse_concat_unfiltered)

text \<open>
  Claim C10 on an export of a record with empty content and a record without content.
\<close>

theorem content_filter_witness:
  "raw_message.content (raw ''A'' '''' 1000) = Some ''''
   \<and> message.content (processed_msg render [] (raw ''A'' '''' 1000)) = ''''
   \<and> last (snd (loop_body render [] 30 False 10 ([], []) (raw ''A'' '''' 1000)))
       = processed_msg render [] (raw ''A'' '''' 1000)
   \<and> loop_body render [] 30 False 10 ([], [])
         \<lparr>sender_name = Some ''B'', raw_message.content = None,
          raw_message.timestamp_ms = Some 2000, share = None\<rparr> = ([], [])
   \<and> map_option messages_with_content
         (get_statistics ((init [])\<lparr>messages_data := Some (export
            [raw ''A'' '''' 1000,
             \<lparr>sender_name = Some ''B'', raw_message.content = None,
              raw_message.timestamp_ms = Some 2000, share = None\<rparr>])\<rparr>)) = Some 1
   \<and> concat (fst (parse_conversations render
         ((init [])\<lparr>messages_data := Some (export
            [raw ''A'' '''' 1000,
             \<lparr>sender_name = Some ''B'', raw_message.content = None,
              raw_message.timestamp_ms = Some 2000, share = None\<rparr>])\<rparr>) 30 False 10 False))
       = [msg render ''A'' '''' 1000]"
proof -
  let ?b = "\<lparr>sender_name = Some ''B'', raw_message.content = None,
             raw_message.timestamp_ms = Some 2000, share = None\<rparr>"
  let ?p = "(init [])\<lparr>messages_data := Some (export [raw ''A'' '''' 1000, ?b])\<rparr>"
  have s: "sort_key (\<lambda>x. get_timestamp_ms x) [raw ''A'' '''' 1000, ?b] = [raw ''A'' '''' 1000, ?b]"
    by (simp add: raw_def get_timestamp_ms_def)
  have c: "raw_message.content (raw ''A'' '''' 1000) = Some ''''"
    by (simp add: raw_def)
  have m: "processed_msg render [] (raw ''A'' '''' 1000) = msg render ''A'' '''' 1000"
    by (simp add: processed_msg_raw_test str_lower_def)
  note a = content_filter[where message = "raw ''A'' '''' 1000" and isoformat = render
             and um = "[]" and T = 30 and io = False and mx = 10 and convs = "[]" and cur = "[]"
             and self = ?p and data = "export [raw ''A'' '''' 1000, ?b]"]
  note b = content_filter[where message = ?b and isoformat = render
             and um = "[]" and T = 30 and io = False and mx = 10 and st = "([], [])"
             and self = ?p and data = "export [raw ''A'' '''' 1000, ?b]"]
  from a b show ?thesis
    by (simp add: c s m init_def)
qed

text \<open>
  Claim C8 on the code. A single file that holds one message object and no \<^verbatim>\<open>messages\<close>
  key is stored as it is; \<open>parse_conversations\<close> then reads an empty list of messages
  and returns nothing, and \<open>get_statistics\<close> counts no message. The same file inside a
  directory is taken as one message by the sibling branch of \<open>load_messages\<close>, and gives
  one conversation.
\<close>

theorem single_file_without_messages:
  "load_messages repair (init []) (File (Some single_message_file))
     = Inr ((init [])\<lparr>messages_data := Some (fix_encoding repair single_message_file)\<rparr>)
   \<and> fst (parse_conversations isoformat
            ((init [])\<lparr>messages_data := Some (fix_encoding repair single_message_file)\<rparr>)
            30 False 10 False) = []
   \<and> map_option total_messages
         (get_statistics ((init [])\<lparr>messages_data := Some (fix_encoding repair single_message_file)\<rparr>))
       = Some 0
   \<and> load_messages (\<lambda>s. s) (init []) (Directory [(''message_1.json'', Some (Object single_message_file))])
     = Inr ((init [])\<lparr>messages_data := Some (export [raw ''A'' ''hi'' 1000])\<rparr>)
   \<and> fst (parse_conversations isoformat
            ((init [])\<lparr>messages_data := Some (export [raw ''A'' ''hi'' 1000])\<rparr>)
            30 False 10 False) = [ [msg isoformat ''A'' ''hi'' 1000] ]"
proof (intro conjI)
  show "load_messages repair (init []) (File (Some single_message_file))
     = Inr ((init [])\<lparr>messages_data := Some (fix_encoding repair single_message_file)\<rparr>)"
    by (simp add: load_messages_def)
  show "fst (parse_conversations isoformat
            ((init [])\<lparr>messages_data := Some (fix_encoding repair single_message_file)\<rparr>)
            30 False 10 False) = []"
    by (simp add: parse_conversations_def get_messages_def single_message_file_def init_def)
  show "map_option total_messages
         (get_statistics ((init [])\<lparr>messages_data := Some (fix_encoding repair single_message_file)\<rparr>))
       = Some 0"
    by (simp add: get_statistics_def get_messages_def single_message_file_def init_def
                  empty_object_def fix_encoding_def fix_message_def)
  show "load_messages (\<lambda>s. s) (init []) (Directory [(''message_1.json'', Some (Object single_message_file))])
     = Inr ((init [])\<lparr>messages_data := Some (export [raw ''A'' ''hi'' 1000])\<rparr>)"
    by (simp add: load_messages_def file_messages_def suffix_to_prefix fix_encoding_def
           fix_message_def single_message_file_def export_def raw_def
           decoded.defs raw_message.defs)
  show "fst (parse_conversations isoformat
            ((init [])\<lparr>messages_data := Some (export [raw ''A'' ''hi'' 1000])\<rparr>)
            30 False 10 False) = [ [msg isoformat ''A'' ''hi'' 1000] ]"
  proof -
    let ?p = "(init [])\<lparr>messages_data := Some (export [raw ''A'' ''hi'' 1000])\<rparr>"
    have "fst (parse_conversations isoformat ?p 30 False 10 False) =
          close_last False (foldl (loop_body isoformat [] 30 False 10) ([], []) [raw ''A'' ''hi'' 1000])"
      using parse_conversations_loaded[of ?p "export [raw ''A'' ''hi'' 1000]" "[raw ''A'' ''hi'' 1000]"
            isoformat 30 False 10 False]
      by (simp add: init_def)
    then show ?thesis
      by (simp add: loop_body_first close_last_def is_valid_conversation_def
                  processed_msg_raw_test not_placeholder)
  qed
qed

end
